theory Spec2Isabelle
  imports Complex_Main "HOL-Library.Multiset" "HOL-Library.Sublist"
begin

section \<open>Shared data model (constants.js, store.js)\<close>

text \<open>
  JavaScript numbers are modelled as \<^typ>\<open>real\<close>: every number the store holds is taken to
  be finite.  The one place where the code itself tests for a non-finite number
  (\<^verbatim>\<open>isFinite(this.#primary.duration)\<close>) is modelled with an option, see \<open>audio_element\<close>.
  Track identifiers are strings, as the DOM code compares them with \<^verbatim>\<open>dataset.trackId\<close>.
\<close>

record track =
  track_id :: string
  name :: string
  artist_name :: string
  image :: string
  audio :: string
  track_duration :: real

datatype PLAYER_STATE = IDLE | LOADING | PLAYING | PAUSED | BUFFERING | ENDED | ERROR

datatype REPEAT_MODE = REPEAT_NONE | REPEAT_ALL | REPEAT_ONE

datatype PLAYER_SIZE = MINI | FULL

record palette =
  pal_primary :: string
  pal_secondary :: string
  pal_accent :: string
  pal_text :: string
  isDark :: bool

record toast_msg =
  message :: string
  toast_type :: string

text \<open>The aggregate built by \<^verbatim>\<open>createInitialState\<close>; \<open>likedTrackIds\<close> is a JavaScript
  \<^verbatim>\<open>Set\<close>, kept as the list of its members in insertion order.\<close>

record app_state =
  currentTrack :: "track option"
  playerState :: PLAYER_STATE
  progress :: real
  duration :: real
  volume :: real
  queue :: "track list"
  queueIndex :: int
  repeatMode :: REPEAT_MODE
  shuffle :: bool
  shuffledQueue :: "track list"
  playerSize :: PLAYER_SIZE
  isCrossfading :: bool
  screen :: string
  searchQuery :: string
  searchResults :: "track list"
  featuredTracks :: "track list"
  isLoading :: bool
  isSearching :: bool
  error :: "string option"
  dominantColor :: palette
  likedTrackIds :: "string list"
  library :: "track list"
  recentTracks :: "track list"
  toast :: "toast_msg option"
  isPro :: bool
  isProLoading :: bool

text \<open>Actions with well-typed payloads.  \<open>SET_QUEUE\<close> carries the optional \<^verbatim>\<open>index\<close> of its
  payload (\<^verbatim>\<open>index = 0\<close> by default); \<open>OTHER\<close> stands for any action type the reducer's
  \<^verbatim>\<open>switch\<close> does not list.\<close>

datatype action =
    SET_CURRENT_TRACK track
  | SET_PLAYER_STATE PLAYER_STATE
  | SET_PROGRESS real
  | SET_DURATION real
  | SET_VOLUME real
  | SET_QUEUE "track list" "int option"
  | SET_QUEUE_INDEX int
  | SET_REPEAT_MODE REPEAT_MODE
  | TOGGLE_SHUFFLE
  | SET_PLAYER_SIZE PLAYER_SIZE
  | SET_CROSSFADING bool
  | SET_SCREEN string
  | SET_SEARCH_QUERY string
  | SET_SEARCH_RESULTS "track list"
  | SET_FEATURED_TRACKS "track list"
  | SET_LOADING bool
  | SET_ERROR "string option"
  | CLEAR_ERROR
  | SET_DOMINANT_COLOR palette
  | TOGGLE_LIKED string "track option"
  | ADD_TO_LIBRARY track
  | REMOVE_FROM_LIBRARY string
  | SHOW_TOAST toast_msg
  | HIDE_TOAST
  | SET_PRO_STATUS bool
  | SET_PRO_LOADING bool
  | OTHER string

section \<open>Store helpers\<close>

text \<open>
  \<^verbatim>\<open>shuffleArray\<close>: the loop \<^verbatim>\<open>for (let i = arr.length - 1; i > 0; i--)\<close> with
  \<^verbatim>\<open>j = Math.floor(Math.random() * (i + 1))\<close>.  The results of successive calls of
  \<^verbatim>\<open>Math.random()\<close> are the values \<open>rnd 0\<close>, \<open>rnd 1\<close>, ...  \<^verbatim>\<open>Math.random()\<close> lies in
  \<open>[0, 1)\<close>, which keeps \<open>j \<le> i\<close>; for other values of \<open>rnd\<close> (where JavaScript would read
  past the end of the array) \<open>swap_entries\<close> leaves the array as it is.
\<close>

definition swap_entries :: "nat \<Rightarrow> nat \<Rightarrow> 'a list \<Rightarrow> 'a list" where
  "swap_entries i j arr =
     (if i < length arr \<and> j < length arr then arr[i := arr ! j, j := arr ! i] else arr)"

fun shuffle_loop :: "nat \<Rightarrow> (nat \<Rightarrow> real) \<Rightarrow> nat \<Rightarrow> 'a list \<Rightarrow> 'a list" where
  "shuffle_loop 0 rnd k arr = arr"
| "shuffle_loop (Suc i) rnd k arr =
     shuffle_loop i rnd (Suc k) (swap_entries (Suc i) (nat \<lfloor>rnd k * real (Suc i + 1)\<rfloor>) arr)"

definition shuffleArray :: "(nat \<Rightarrow> real) \<Rightarrow> 'a list \<Rightarrow> 'a list" where
  "shuffleArray rnd array = shuffle_loop (length array - 1) rnd 0 array"

text \<open>\<^verbatim>\<open>selectors.activeQueue\<close>:
  \<^verbatim>\<open>s.shuffle && s.shuffledQueue.length ? s.shuffledQueue : s.queue\<close>.\<close>

definition activeQueue :: "app_state \<Rightarrow> track list" where
  "activeQueue s = (if shuffle s \<and> length (shuffledQueue s) \<noteq> 0 then shuffledQueue s else queue s)"

section \<open>The reducer\<close>

text \<open>
  \<^verbatim>\<open>Store.#reduce\<close> either returns its argument \<^verbatim>\<open>state\<close> itself (\<open>Same\<close>) or a freshly
  allocated object \<^verbatim>\<open>{ ...state, ... }\<close> (\<open>New\<close>).  \<^verbatim>\<open>dispatch\<close> compares the two by reference
  (\<^verbatim>\<open>nextState === prevState\<close>), so the distinction is part of the result: \<open>New s\<close> with \<open>s\<close>
  equal to the old state field by field is still a new reference.  The \<^verbatim>\<open>storageSet\<close> calls
  write to \<^verbatim>\<open>localStorage\<close> only, catch their own errors and do not feed back into the state;
  they are left out.
\<close>

datatype reduction = Same | New app_state

fun reduce :: "(nat \<Rightarrow> real) \<Rightarrow> app_state \<Rightarrow> action \<Rightarrow> reduction" where
  "reduce rnd state (SET_CURRENT_TRACK track) =
     (if Some (track_id track) = map_option track_id (currentTrack state) then Same
      else New (state\<lparr>currentTrack := Some track,
                      recentTracks := take 50 (track #
                        filter (\<lambda>t. track_id t \<noteq> track_id track) (recentTracks state))\<rparr>))"
| "reduce rnd state (SET_PLAYER_STATE payload) =
     (if playerState state = payload then Same else New (state\<lparr>playerState := payload\<rparr>))"
| "reduce rnd state (SET_PROGRESS payload) =
     (if \<bar>progress state - payload\<bar> < 0.1 then Same else New (state\<lparr>progress := payload\<rparr>))"
| "reduce rnd state (SET_DURATION payload) =
     (if duration state = payload then Same else New (state\<lparr>duration := payload\<rparr>))"
| "reduce rnd state (SET_VOLUME payload) = New (state\<lparr>volume := min 1 (max 0 payload)\<rparr>)"
| "reduce rnd state (SET_QUEUE q index) =
     New (state\<lparr>queue := q,
                queueIndex := (case index of None \<Rightarrow> 0 | Some i \<Rightarrow> i),
                shuffledQueue := (if shuffle state then shuffleArray rnd q else [])\<rparr>)"
| "reduce rnd state (SET_QUEUE_INDEX payload) = New (state\<lparr>queueIndex := payload\<rparr>)"
| "reduce rnd state (SET_REPEAT_MODE payload) = New (state\<lparr>repeatMode := payload\<rparr>)"
| "reduce rnd state TOGGLE_SHUFFLE =
     New (state\<lparr>shuffle := \<not> shuffle state,
                shuffledQueue := (if \<not> shuffle state then shuffleArray rnd (queue state) else [])\<rparr>)"
| "reduce rnd state (SET_PLAYER_SIZE payload) =
     (if playerSize state = payload then Same else New (state\<lparr>playerSize := payload\<rparr>))"
| "reduce rnd state (SET_CROSSFADING payload) = New (state\<lparr>isCrossfading := payload\<rparr>)"
| "reduce rnd state (SET_SCREEN payload) =
     (if screen state = payload then Same else New (state\<lparr>screen := payload\<rparr>))"
| "reduce rnd state (SET_SEARCH_QUERY payload) = New (state\<lparr>searchQuery := payload\<rparr>)"
| "reduce rnd state (SET_SEARCH_RESULTS payload) =
     New (state\<lparr>searchResults := payload, isSearching := False\<rparr>)"
| "reduce rnd state (SET_FEATURED_TRACKS payload) = New (state\<lparr>featuredTracks := payload\<rparr>)"
| "reduce rnd state (SET_LOADING payload) = New (state\<lparr>isLoading := payload\<rparr>)"
| "reduce rnd state (SET_ERROR payload) =
     New (state\<lparr>error := payload, isLoading := False, isSearching := False\<rparr>)"
| "reduce rnd state CLEAR_ERROR = New (state\<lparr>error := None\<rparr>)"
| "reduce rnd state (SET_DOMINANT_COLOR payload) = New (state\<lparr>dominantColor := payload\<rparr>)"
| "reduce rnd state (TOGGLE_LIKED trackId trk) =
     (if trackId \<in> set (likedTrackIds state)
      then New (state\<lparr>likedTrackIds := removeAll trackId (likedTrackIds state),
                      library := filter (\<lambda>t. track_id t \<noteq> trackId) (library state)\<rparr>)
      else New (state\<lparr>likedTrackIds := likedTrackIds state @ [trackId],
                      library := (case trk of
                                    None \<Rightarrow> library state
                                  | Some t \<Rightarrow>
                                      if find (\<lambda>t. track_id t = trackId) (library state) = None
                                      then t # library state else library state)\<rparr>))"
| "reduce rnd state (ADD_TO_LIBRARY trk) =
     (if find (\<lambda>t. track_id t = track_id trk) (library state) \<noteq> None then Same
      else New (state\<lparr>library := take 500 (trk # library state)\<rparr>))"
| "reduce rnd state (REMOVE_FROM_LIBRARY ident) =
     New (state\<lparr>library := filter (\<lambda>t. track_id t \<noteq> ident) (library state)\<rparr>)"
| "reduce rnd state (SHOW_TOAST payload) = New (state\<lparr>toast := Some payload\<rparr>)"
| "reduce rnd state HIDE_TOAST = New (state\<lparr>toast := None\<rparr>)"
| "reduce rnd state (SET_PRO_STATUS payload) =
     New (state\<lparr>isPro := payload, isProLoading := False\<rparr>)"
| "reduce rnd state (SET_PRO_LOADING payload) = New (state\<lparr>isProLoading := payload\<rparr>)"
| "reduce rnd state (OTHER ty) = Same"

section \<open>Values seen by selector subscribers\<close>

text \<open>
  What a selector returns is a JavaScript value.  Objects carry the identity of the object
  (an address) next to their contents, because \<^verbatim>\<open>===\<close> compares objects by identity: a
  \<^verbatim>\<open>Set\<close> with its members, any other object with its own enumerable keys in order.
\<close>

datatype jsval =
    Undefined
  | Null
  | Boolean bool
  | Number real
  | String string
  | SetObject nat "jsval list"
  | PlainObject nat "(string \<times> jsval) list"

fun strict_equal :: "jsval \<Rightarrow> jsval \<Rightarrow> bool" where
  "strict_equal Undefined Undefined = True"
| "strict_equal Null Null = True"
| "strict_equal (Boolean a) (Boolean b) = (a = b)"
| "strict_equal (Number a) (Number b) = (a = b)"
| "strict_equal (String a) (String b) = (a = b)"
| "strict_equal (SetObject r xs) (SetObject r' ys) = (r = r')"
| "strict_equal (PlainObject r xs) (PlainObject r' ys) = (r = r')"
| "strict_equal a b = False"

fun typeof :: "jsval \<Rightarrow> string" where
  "typeof Undefined = ''undefined''"
| "typeof Null = ''object''"
| "typeof (Boolean b) = ''boolean''"
| "typeof (Number x) = ''number''"
| "typeof (String s) = ''string''"
| "typeof (SetObject r xs) = ''object''"
| "typeof (PlainObject r kvs) = ''object''"

fun is_Set :: "jsval \<Rightarrow> bool" where
  "is_Set (SetObject r xs) = True"
| "is_Set v = False"

fun members :: "jsval \<Rightarrow> jsval list" where
  "members (SetObject r xs) = xs"
| "members v = []"

text \<open>\<^verbatim>\<open>Object.keys(v)\<close> and the property read \<^verbatim>\<open>v[k]\<close> (a missing key reads as
  \<^verbatim>\<open>undefined\<close>; a \<^verbatim>\<open>Set\<close> has no own enumerable keys).\<close>

fun object_keys :: "jsval \<Rightarrow> string list" where
  "object_keys (PlainObject r kvs) = map fst kvs"
| "object_keys v = []"

fun get_property :: "jsval \<Rightarrow> string \<Rightarrow> jsval" where
  "get_property (PlainObject r kvs) k = (case map_of kvs k of None \<Rightarrow> Undefined | Some v \<Rightarrow> v)"
| "get_property v k = Undefined"

definition shallowEqual :: "jsval \<Rightarrow> jsval \<Rightarrow> bool" where
  "shallowEqual a b =
     (if strict_equal a b then True
      else if typeof a \<noteq> typeof b then False
      else if is_Set a \<and> is_Set b then
        (if length (members a) \<noteq> length (members b) then False
         else list_all (\<lambda>item. list_ex (strict_equal item) (members b)) (members a))
      else if typeof a \<noteq> ''object'' \<or> a = Null \<or> b = Null then False
      else if length (object_keys a) \<noteq> length (object_keys b) then False
      else list_all (\<lambda>k. strict_equal (get_property a k) (get_property b k)) (object_keys a))"

section \<open>The store\<close>

text \<open>
  Callbacks are foreign code.  A callback is modelled by the identity of the function object
  and by whether a call of it with given arguments throws (\<open>Some e\<close>) or returns (\<open>None\<close>);
  callbacks do not call back into the store.  A selector may throw as well: \<^verbatim>\<open>dispatch\<close>
  calls it outside of its \<^verbatim>\<open>try\<close> blocks.
\<close>

datatype js_error = JsError string

record listener =
  listener_ref :: nat
  listener_body :: "app_state \<Rightarrow> app_state \<Rightarrow> action \<Rightarrow> js_error option"

record selector_fn =
  selector_ref :: nat
  selector_body :: "app_state \<Rightarrow> js_error + jsval"

record handler_fn =
  handler_ref :: nat
  handler_body :: "jsval \<Rightarrow> jsval \<Rightarrow> js_error option"

text \<open>The object \<^verbatim>\<open>{ selector, handler, lastValue }\<close> that \<^verbatim>\<open>select\<close> allocates; \<open>entry_ref\<close>
  is its identity, used by the unsubscribe closure.\<close>

record entry =
  entry_ref :: nat
  selector :: selector_fn
  handler :: handler_fn
  lastValue :: jsval

text \<open>\<open>listeners\<close> is a \<^verbatim>\<open>Set\<close> of functions and \<open>selectorListeners\<close> a \<^verbatim>\<open>Map\<close> from selector
  functions to \<^verbatim>\<open>Set\<close>s of entries; both iterate in insertion order, which the lists keep.
  \<open>next_ref\<close> is the next unused entry identity.\<close>

record store =
  state :: app_state
  listeners :: "listener list"
  selectorListeners :: "(nat \<times> entry list) list"
  next_ref :: nat

text \<open>What happens outside the store and the engine during a call: callbacks invoked,
  lines written to the console, events put on the event bus, and the engine's calls of
  platform services.\<close>

datatype event =
    ListenerCalled nat
  | HandlerCalled nat nat jsval jsval
  | ConsoleError string js_error
  | BusEmit action
  | Haptic string
  | Slept nat
  | LogPlayEvent track
  | AnimationFrameRequested

definition getState :: "store \<Rightarrow> app_state" where
  "getState st = state st"

definition subscribe :: "store \<Rightarrow> listener \<Rightarrow> store" where
  "subscribe st l =
     (if listener_ref l \<in> set (map listener_ref (listeners st)) then st
      else st\<lparr>listeners := listeners st @ [l]\<rparr>)"

definition unsubscribe :: "store \<Rightarrow> nat \<Rightarrow> store" where
  "unsubscribe st r = st\<lparr>listeners := filter (\<lambda>l. listener_ref l \<noteq> r) (listeners st)\<rparr>"

fun add_entry :: "nat \<Rightarrow> entry \<Rightarrow> (nat \<times> entry list) list \<Rightarrow> (nat \<times> entry list) list" where
  "add_entry k e [] = [(k, [e])]"
| "add_entry k e ((k', es) # groups) =
     (if k = k' then (k', es @ [e]) # groups else (k', es) # add_entry k e groups)"

text \<open>\<^verbatim>\<open>select(selector, handler)\<close>: the selector is called on the current state; if it
  throws, nothing has been registered yet.  The result is the store and the identity of the
  new entry (what the returned unsubscribe closure holds).\<close>

definition select :: "store \<Rightarrow> selector_fn \<Rightarrow> handler_fn \<Rightarrow> js_error + (store \<times> nat)" where
  "select st sel h =
     (case selector_body sel (state st) of
        Inl e \<Rightarrow> Inl e
      | Inr v \<Rightarrow>
          Inr (st\<lparr>selectorListeners :=
                     add_entry (selector_ref sel)
                       \<lparr>entry_ref = next_ref st, selector = sel, handler = h, lastValue = v\<rparr>
                       (selectorListeners st),
                   next_ref := Suc (next_ref st)\<rparr>,
               next_ref st))"

definition unselect :: "store \<Rightarrow> nat \<Rightarrow> nat \<Rightarrow> store" where
  "unselect st k r =
     st\<lparr>selectorListeners :=
          map (\<lambda>(k', es). if k' = k then (k', filter (\<lambda>e. entry_ref e \<noteq> r) es) else (k', es))
            (selectorListeners st)\<rparr>"

text \<open>The first loop of \<^verbatim>\<open>dispatch\<close>:
  \<^verbatim>\<open>try { listener(nextState, prevState, action); } catch (e) { console.error(...) }\<close>.\<close>

fun notify_listeners :: "listener list \<Rightarrow> app_state \<Rightarrow> app_state \<Rightarrow> action \<Rightarrow> event list" where
  "notify_listeners [] nextState prevState a = []"
| "notify_listeners (l # ls) nextState prevState a =
     ListenerCalled (listener_ref l) #
     (case listener_body l nextState prevState a of
        None \<Rightarrow> []
      | Some e \<Rightarrow> [ConsoleError ''[Store] Subscriber error:'' e])
     @ notify_listeners ls nextState prevState a"

text \<open>The inner loop over the entries of one selector.  The result is the entries (with
  \<open>lastValue\<close> updated where the handler was due), the events, and the exception that left
  the loop, if any: only the call of the selector can raise one.\<close>

fun notify_entries :: "app_state \<Rightarrow> entry list \<Rightarrow> entry list \<times> event list \<times> js_error option" where
  "notify_entries nextState [] = ([], [], None)"
| "notify_entries nextState (e # es) =
     (case selector_body (selector e) nextState of
        Inl err \<Rightarrow> (e # es, [], Some err)
      | Inr newValue \<Rightarrow>
          if \<not> shallowEqual newValue (lastValue e) then
            (case notify_entries nextState es of
               (es', evs, thrown) \<Rightarrow>
                 (e\<lparr>lastValue := newValue\<rparr> # es',
                  HandlerCalled (entry_ref e) (handler_ref (handler e)) newValue (lastValue e) #
                  (case handler_body (handler e) newValue (lastValue e) of
                     None \<Rightarrow> []
                   | Some x \<Rightarrow> [ConsoleError ''[Store] Selector subscriber error:'' x])
                  @ evs,
                  thrown))
          else
            (case notify_entries nextState es of
               (es', evs, thrown) \<Rightarrow> (e # es', evs, thrown)))"

fun notify_selectors ::
  "app_state \<Rightarrow> (nat \<times> entry list) list \<Rightarrow> (nat \<times> entry list) list \<times> event list \<times> js_error option"
where
  "notify_selectors nextState [] = ([], [], None)"
| "notify_selectors nextState ((k, es) # groups) =
     (case notify_entries nextState es of
        (es', evs, Some err) \<Rightarrow> ((k, es') # groups, evs, Some err)
      | (es', evs, None) \<Rightarrow>
          (case notify_selectors nextState groups of
             (groups', evs', thrown) \<Rightarrow> ((k, es') # groups', evs @ evs', thrown)))"

text \<open>\<^verbatim>\<open>Store.dispatch\<close>.  The result is the store afterwards, the events of the call and the
  exception that reaches the caller, if any.  \<^verbatim>\<open>eventBus.emit\<close> catches what its own handlers
  throw; it appears as the event \<open>BusEmit\<close>.\<close>

definition dispatch ::
  "(nat \<Rightarrow> real) \<Rightarrow> store \<Rightarrow> action \<Rightarrow> store \<times> event list \<times> js_error option" where
  "dispatch rnd st a =
     (case reduce rnd (state st) a of
        Same \<Rightarrow> (st, [], None)
      | New nextState \<Rightarrow>
          (let prevState = state st;
               evsL = notify_listeners (listeners st) nextState prevState a
           in case notify_selectors nextState (selectorListeners st) of
                (groups', evsS, Some err) \<Rightarrow>
                  (st\<lparr>state := nextState, selectorListeners := groups'\<rparr>, evsL @ evsS, Some err)
              | (groups', evsS, None) \<Rightarrow>
                  (st\<lparr>state := nextState, selectorListeners := groups'\<rparr>,
                   evsL @ evsS @ [BusEmit a], None)))"

text \<open>The selectors of \<^verbatim>\<open>selectors\<close> that project a primitive field.\<close>

definition selectors_volume :: "app_state \<Rightarrow> js_error + jsval" where
  "selectors_volume s = Inr (Number (volume s))"

definition selectors_progress :: "app_state \<Rightarrow> js_error + jsval" where
  "selectors_progress s = Inr (Number (progress s))"

definition selectors_queueIndex :: "app_state \<Rightarrow> js_error + jsval" where
  "selectors_queueIndex s = Inr (Number (real_of_int (queueIndex s)))"

definition selectors_isShuffle :: "app_state \<Rightarrow> js_error + jsval" where
  "selectors_isShuffle s = Inr (Boolean (shuffle s))"

definition selectors_isCrossfading :: "app_state \<Rightarrow> js_error + jsval" where
  "selectors_isCrossfading s = Inr (Boolean (isCrossfading s))"

definition all_entries :: "store \<Rightarrow> entry list" where
  "all_entries st = concat (map snd (selectorListeners st))"

text \<open>The state the store holds after \<^verbatim>\<open>dispatch\<close> of an action.\<close>

definition next_state :: "(nat \<Rightarrow> real) \<Rightarrow> app_state \<Rightarrow> action \<Rightarrow> app_state" where
  "next_state rnd s a = (case reduce rnd s a of Same \<Rightarrow> s | New ns \<Rightarrow> ns)"

text \<open>\<^verbatim>\<open>createInitialState\<close> and \<^verbatim>\<open>new Store()\<close>.  The values read with \<^verbatim>\<open>storageGet\<close> and
  the constants of constants.js (not part of the sources at hand: \<^verbatim>\<open>SCREEN.HOME\<close> and the
  two colours of \<^verbatim>\<open>DEFAULT_GRADIENT\<close>) are parameters.\<close>

record stored =
  stored_volume :: real
  stored_repeat :: REPEAT_MODE
  stored_shuffle :: bool
  stored_liked :: "string list"
  stored_library :: "track list"
  stored_recent :: "track list"
  stored_pro :: bool

definition createInitialState :: "stored \<Rightarrow> string \<Rightarrow> string \<Rightarrow> string \<Rightarrow> app_state" where
  "createInitialState st home gradient_from gradient_via =
     \<lparr>currentTrack = None, playerState = IDLE, progress = 0, duration = 0,
      volume = stored_volume st, queue = [], queueIndex = - 1,
      repeatMode = stored_repeat st, shuffle = stored_shuffle st, shuffledQueue = [],
      playerSize = MINI, isCrossfading = False,
      screen = home, searchQuery = [], searchResults = [], featuredTracks = [],
      isLoading = False, isSearching = False, error = None,
      dominantColor = \<lparr>pal_primary = gradient_from, pal_secondary = gradient_via,
                        pal_accent = ''#e94560'', pal_text = ''#f0f0f0'', isDark = True\<rparr>,
      likedTrackIds = rev (remdups (rev (stored_liked st))), library = stored_library st,
      recentTracks = stored_recent st, toast = None,
      isPro = stored_pro st, isProLoading = False\<rparr>"

definition new_Store :: "app_state \<Rightarrow> store" where
  "new_Store s = \<lparr>state = s, listeners = [], selectorListeners = [], next_ref = 0\<rparr>"

text \<open>The stores that arise from a new store by calls of the public interface that
  return normally.\<close>

inductive reachable :: "store \<Rightarrow> bool" where
  fresh: "reachable (new_Store s)"
| after_dispatch: "reachable st \<Longrightarrow> dispatch rnd st a = (st', evs, None) \<Longrightarrow> reachable st'"
| after_select: "reachable st \<Longrightarrow> select st sel h = Inr (st', r) \<Longrightarrow> reachable st'"
| after_unselect: "reachable st \<Longrightarrow> reachable (unselect st k r)"
| after_subscribe: "reachable st \<Longrightarrow> reachable (subscribe st l)"
| after_unsubscribe: "reachable st \<Longrightarrow> reachable (unsubscribe st r)"

section \<open>Reading the event log\<close>

fun handler_calls :: "nat \<Rightarrow> event list \<Rightarrow> nat" where
  "handler_calls r [] = 0"
| "handler_calls r (HandlerCalled r' h v w # evs) = (if r' = r then 1 else 0) + handler_calls r evs"
| "handler_calls r (ev # evs) = handler_calls r evs"

fun listener_calls :: "event list \<Rightarrow> nat list" where
  "listener_calls [] = []"
| "listener_calls (ListenerCalled r # evs) = r # listener_calls evs"
| "listener_calls (ev # evs) = listener_calls evs"

fun handler_call_refs :: "event list \<Rightarrow> nat list" where
  "handler_call_refs [] = []"
| "handler_call_refs (HandlerCalled r h v w # evs) = r # handler_call_refs evs"
| "handler_call_refs (ev # evs) = handler_call_refs evs"

fun console_errors :: "event list \<Rightarrow> js_error list" where
  "console_errors [] = []"
| "console_errors (ConsoleError s e # evs) = e # console_errors evs"
| "console_errors (ev # evs) = console_errors evs"

text \<open>An entry is due when its selector's value on the new state is not shallow-equal to
  its last observed value; \<open>handler_outcome\<close> is what its handler then does; \<open>in_sync\<close>
  says that the last observed value is shallow-equal to the selector's current value.\<close>

definition due :: "app_state \<Rightarrow> entry \<Rightarrow> bool" where
  "due ns e =
     (case selector_body (selector e) ns of Inl x \<Rightarrow> False | Inr v \<Rightarrow> \<not> shallowEqual v (lastValue e))"

definition handler_outcome :: "app_state \<Rightarrow> entry \<Rightarrow> js_error option" where
  "handler_outcome ns e =
     (case selector_body (selector e) ns of
        Inl x \<Rightarrow> None
      | Inr v \<Rightarrow> handler_body (handler e) v (lastValue e))"

definition in_sync :: "app_state \<Rightarrow> entry \<Rightarrow> bool" where
  "in_sync s e =
     (case selector_body (selector e) s of Inl x \<Rightarrow> False | Inr v \<Rightarrow> shallowEqual v (lastValue e))"

definition returns_value :: "app_state \<Rightarrow> entry \<Rightarrow> bool" where
  "returns_value ns e = (case selector_body (selector e) ns of Inl x \<Rightarrow> False | Inr v \<Rightarrow> True)"

definition store_inv :: "store \<Rightarrow> bool" where
  "store_inv st \<longleftrightarrow>
     distinct (map entry_ref (all_entries st)) \<and>
     list_all (\<lambda>e. entry_ref e < next_ref st \<and> in_sync (state st) e) (all_entries st)"

section \<open>The playback engine (player.js)\<close>

text \<open>
  The engine talks to the platform (two \<^verbatim>\<open>HTMLAudioElement\<close>s), to the stream resolver of
  api.js and to the store.  What the platform answers is not the engine's choice, so it is
  an input of the model: \<open>load_answers\<close> holds the outcome of each coming \<^verbatim>\<open>load()\<close>
  (whether a \<^verbatim>\<open>waiting\<close> event came first, then \<^verbatim>\<open>canplay\<close> with the duration of the resource
  or \<^verbatim>\<open>error\<close>), \<open>play_answers\<close> the outcome of each coming \<^verbatim>\<open>play()\<close> promise.  When a list is
  empty the answer never comes and the method that awaits it stays suspended.

  Each method runs as one step: the calls are serialized, as the specification asks of the
  callers.  The one place where the order of asynchronous pieces matters, the crossfade
  ramp, is kept apart: \<open>crossfadeTo\<close> returns when it has asked for the first animation frame,
  and each frame is a call of \<open>tick\<close>.  The Web Audio gain nodes and the delivery of DOM
  events to the bound handlers are not modelled; \<open>onEnded\<close> is what runs when the active
  element reports \<^verbatim>\<open>ended\<close>.
\<close>

datatype completion = Fulfilled | Rejected js_error | Suspended

datatype load_answer = CanPlay bool real | LoadError bool

datatype play_answer = Started | NotAllowedError | PlayRejected string

text \<open>\<open>el_duration\<close> is \<open>None\<close> while \<^verbatim>\<open>isFinite(audio.duration)\<close> is false.\<close>

record audio_element =
  element_id :: string
  src :: string
  currentTime :: real
  el_duration :: "real option"
  el_volume :: real
  paused :: bool

text \<open>The variables the closure \<^verbatim>\<open>tick\<close> of \<^verbatim>\<open>crossfadeTo\<close> captures.\<close>

record crossfade_job =
  startTime :: real
  primaryStartVol :: real
  targetVol :: real
  nextTrack :: track

text \<open>constants.js and api.js are not among the sources at hand: the constants the engine
  reads and the resolver \<^verbatim>\<open>getTrackStreamUrl\<close> (\<open>None\<close> when it throws) are parameters, with
  \<^verbatim>\<open>Math.random\<close> and the clock \<^verbatim>\<open>Date.now()\<close>.\<close>

record env =
  MAX_RETRIES :: nat
  RETRY_DELAY_MS :: nat
  CROSSFADE_VISUAL :: real
  ERROR_MSG_PLAYBACK :: string
  getTrackStreamUrl :: "track \<Rightarrow> string option"
  random :: "nat \<Rightarrow> real"
  Date_now :: real

text \<open>The private fields of \<^verbatim>\<open>AudioPlayer\<close> that matter here, the store singleton, the
  handler the engine registers on \<^verbatim>\<open>selectors.volume\<close>, the frame callback that is scheduled,
  the platform's coming answers and the log of outside effects.\<close>

record player =
  the_store :: store
  primary :: audio_element
  secondary :: audio_element
  retryCount :: nat
  progressTimer :: bool
  boundHandlers :: bool
  scheduledTick :: "crossfade_job option"
  volumeHandler :: nat
  load_answers :: "load_answer list"
  play_answers :: "play_answer list"
  trace :: "event list"

text \<open>The engine's own subscription, \<^verbatim>\<open>select(selectors.volume, (volume) => { this.#primary.volume = volume })\<close>,
  takes effect whenever the store calls that handler.\<close>

fun apply_volume_sync :: "nat \<Rightarrow> event list \<Rightarrow> audio_element \<Rightarrow> audio_element" where
  "apply_volume_sync h [] el = el"
| "apply_volume_sync h (HandlerCalled r h' (Number v) w # evs) el =
     apply_volume_sync h evs (if h' = h then el\<lparr>el_volume := v\<rparr> else el)"
| "apply_volume_sync h (ev # evs) el = apply_volume_sync h evs el"

text \<open>A \<^verbatim>\<open>dispatch({ type, payload })\<close> statement of the engine.  The engine model is about
  stores whose registered selectors are pure projections, for which \<^verbatim>\<open>dispatch\<close> raises
  nothing; the third component is dropped.\<close>

definition player_dispatch :: "env \<Rightarrow> action \<Rightarrow> player \<Rightarrow> player" where
  "player_dispatch env a p =
     (case dispatch (random env) (the_store p) a of
        (st', evs, thrown) \<Rightarrow>
          p\<lparr>the_store := st',
            primary := apply_volume_sync (volumeHandler p) evs (primary p),
            trace := trace p @ evs\<rparr>)"

definition haptic :: "string \<Rightarrow> player \<Rightarrow> player" where
  "haptic ty p = p\<lparr>trace := trace p @ [Haptic ty]\<rparr>"

definition console_error :: "string \<Rightarrow> js_error \<Rightarrow> player \<Rightarrow> player" where
  "console_error msg e p = p\<lparr>trace := trace p @ [ConsoleError msg e]\<rparr>"

definition logPlayEvent :: "track \<Rightarrow> player \<Rightarrow> player" where
  "logPlayEvent t p = p\<lparr>trace := trace p @ [LogPlayEvent t]\<rparr>"

definition sleep :: "nat \<Rightarrow> player \<Rightarrow> player" where
  "sleep ms p = p\<lparr>trace := trace p @ [Slept ms]\<rparr>"

definition requestAnimationFrame :: "crossfade_job \<Rightarrow> player \<Rightarrow> player" where
  "requestAnimationFrame job p =
     p\<lparr>scheduledTick := Some job, trace := trace p @ [AnimationFrameRequested]\<rparr>"

definition stopProgressTimer :: "player \<Rightarrow> player" where
  "stopProgressTimer p = p\<lparr>progressTimer := False\<rparr>"

definition startProgressTimer :: "player \<Rightarrow> player" where
  "startProgressTimer p = (stopProgressTimer p)\<lparr>progressTimer := True\<rparr>"

definition detachPrimaryListeners :: "player \<Rightarrow> player" where
  "detachPrimaryListeners p = p\<lparr>boundHandlers := False\<rparr>"

definition attachPrimaryListeners :: "player \<Rightarrow> player" where
  "attachPrimaryListeners p = (detachPrimaryListeners p)\<lparr>boundHandlers := True\<rparr>"

text \<open>\<^verbatim>\<open>createAudioElement\<close> and the constructor: two elements, and the subscription to the
  volume (\<open>sel\<close> and \<open>h\<close> are the identities of \<^verbatim>\<open>selectors.volume\<close> and of the handler).\<close>

definition createAudioElement :: "string \<Rightarrow> audio_element" where
  "createAudioElement ident =
     \<lparr>element_id = ''aura-audio-'' @ ident, src = [], currentTime = 0, el_duration = None,
      el_volume = 1, paused = True\<rparr>"

definition new_AudioPlayer :: "store \<Rightarrow> nat \<Rightarrow> nat \<Rightarrow> load_answer list \<Rightarrow> play_answer list \<Rightarrow> player" where
  "new_AudioPlayer st sel h loads plays =
     \<lparr>the_store =
        (case select st \<lparr>selector_ref = sel, selector_body = selectors_volume\<rparr>
                \<lparr>handler_ref = h, handler_body = (\<lambda>v w. None)\<rparr> of
           Inl e \<Rightarrow> st
         | Inr (st', r) \<Rightarrow> st'),
      primary = createAudioElement ''primary'',
      secondary = createAudioElement ''secondary'',
      retryCount = 0, progressTimer = False, boundHandlers = False, scheduledTick = None,
      volumeHandler = h, load_answers = loads, play_answers = plays, trace = []\<rparr>"

text \<open>\<^verbatim>\<open>queue[index]\<close>: \<^verbatim>\<open>undefined\<close> outside the array.\<close>

definition index_opt :: "'a list \<Rightarrow> int \<Rightarrow> 'a option" where
  "index_opt xs i = (if 0 \<le> i \<and> i < int (length xs) then Some (xs ! nat i) else None)"

text \<open>\<^verbatim>\<open>Array.prototype.slice\<close>: a negative index counts from the end.\<close>

definition relative_index :: "nat \<Rightarrow> int \<Rightarrow> nat" where
  "relative_index len i = (if i < 0 then nat (max (int len + i) 0) else min (nat i) len)"

definition slice :: "'a list \<Rightarrow> int \<Rightarrow> int \<Rightarrow> 'a list" where
  "slice xs start stop =
     take (relative_index (length xs) stop - relative_index (length xs) start)
       (drop (relative_index (length xs) start) xs)"

definition slice_from :: "'a list \<Rightarrow> int \<Rightarrow> 'a list" where
  "slice_from xs start = drop (relative_index (length xs) start) xs"

definition clamp :: "real \<Rightarrow> real \<Rightarrow> real \<Rightarrow> real" where
  "clamp v lo hi = min (max v lo) hi"

definition easeInOutCubic :: "real \<Rightarrow> real" where
  "easeInOutCubic t = (if t < 0.5 then 4 * t * t * t else 1 - (- 2 * t + 2) ^ 3 / 2)"

definition seek :: "env \<Rightarrow> real \<Rightarrow> player \<Rightarrow> player" where
  "seek env seconds p =
     (case el_duration (primary p) of
        None \<Rightarrow> p
      | Some d \<Rightarrow>
          haptic ''select''
            (player_dispatch env (SET_PROGRESS (clamp seconds 0 d))
               (p\<lparr>primary := (primary p)\<lparr>currentTime := clamp seconds 0 d\<rparr>\<rparr>)))"

definition resume :: "env \<Rightarrow> player \<Rightarrow> player" where
  "resume env p =
     (if src (primary p) = [] then p
      else case play_answers p of
             [] \<Rightarrow> p
           | Started # rest \<Rightarrow>
               haptic ''light''
                 (startProgressTimer
                    (player_dispatch env (SET_PLAYER_STATE PLAYING)
                       (p\<lparr>play_answers := rest, primary := (primary p)\<lparr>paused := False\<rparr>\<rparr>)))
           | NotAllowedError # rest \<Rightarrow>
               console_error ''[Player] Resume error:'' (JsError ''NotAllowedError'')
                 (p\<lparr>play_answers := rest\<rparr>)
           | PlayRejected msg # rest \<Rightarrow>
               console_error ''[Player] Resume error:'' (JsError msg) (p\<lparr>play_answers := rest\<rparr>))"

definition pause :: "env \<Rightarrow> player \<Rightarrow> player" where
  "pause env p =
     haptic ''light''
       (stopProgressTimer
          (player_dispatch env (SET_PLAYER_STATE PAUSED)
             (p\<lparr>primary := (primary p)\<lparr>paused := True\<rparr>\<rparr>)))"

text \<open>\<^verbatim>\<open>#loadAudio\<close>.  Assigning \<^verbatim>\<open>src\<close> and calling \<^verbatim>\<open>load()\<close> resets the element: no duration
  is known until the resource answers.\<close>

definition loadAudio :: "env \<Rightarrow> string \<Rightarrow> player \<Rightarrow> completion \<times> player" where
  "loadAudio env url p =
     (let p1 = detachPrimaryListeners p;
          p2 = player_dispatch env (SET_PLAYER_STATE LOADING) p1;
          p3 = player_dispatch env (SET_PROGRESS 0) p2;
          p4 = player_dispatch env (SET_DURATION 0) p3;
          p5 = p4\<lparr>primary := (primary p4)\<lparr>src := url, el_volume := volume (getState (the_store p4)),
                                           currentTime := 0, el_duration := None, paused := True\<rparr>\<rparr>
      in case load_answers p5 of
           [] \<Rightarrow> (Suspended, p5)
         | LoadError waited # rest \<Rightarrow>
             (Rejected (JsError (ERROR_MSG_PLAYBACK env @ '' (src: '' @ url @ '')'')),
              (if waited then player_dispatch env (SET_PLAYER_STATE BUFFERING) p5 else p5)
                \<lparr>load_answers := rest\<rparr>)
         | CanPlay waited d # rest \<Rightarrow>
             (let p6 = (if waited then player_dispatch env (SET_PLAYER_STATE BUFFERING) p5 else p5)
                         \<lparr>load_answers := rest\<rparr>;
                  p7 = player_dispatch env (SET_DURATION d)
                         (p6\<lparr>primary := (primary p6)\<lparr>el_duration := Some d\<rparr>\<rparr>)
              in case play_answers p7 of
                   [] \<Rightarrow> (Suspended, p7)
                 | Started # rest' \<Rightarrow>
                     (Fulfilled,
                      attachPrimaryListeners
                        (startProgressTimer
                           ((player_dispatch env (SET_PLAYER_STATE PLAYING)
                               (p7\<lparr>play_answers := rest',
                                   primary := (primary p7)\<lparr>paused := False\<rparr>\<rparr>))
                            \<lparr>retryCount := 0\<rparr>)))
                 | NotAllowedError # rest' \<Rightarrow>
                     (Fulfilled,
                      attachPrimaryListeners
                        (player_dispatch env (SET_PLAYER_STATE PAUSED) (p7\<lparr>play_answers := rest'\<rparr>)))
                 | PlayRejected msg # rest' \<Rightarrow> (Rejected (JsError msg), p7\<lparr>play_answers := rest'\<rparr>)))"

text \<open>The \<^verbatim>\<open>try\<close> block of \<^verbatim>\<open>play\<close>.\<close>

definition try_load :: "env \<Rightarrow> track \<Rightarrow> player \<Rightarrow> completion \<times> player" where
  "try_load env track p =
     (case getTrackStreamUrl env track of
        None \<Rightarrow> (Rejected (JsError ''getTrackStreamUrl''), p)
      | Some streamUrl \<Rightarrow>
          (case loadAudio env streamUrl p of
             (Fulfilled, p') \<Rightarrow> (Fulfilled, logPlayEvent track p')
           | (Rejected e, p') \<Rightarrow> (Rejected e, p')
           | (Suspended, p') \<Rightarrow> (Suspended, p')))"

text \<open>The statements of \<^verbatim>\<open>play\<close> before its \<^verbatim>\<open>try\<close>, and the statements of its \<^verbatim>\<open>catch\<close>
  before the retry test.\<close>

definition play_prologue :: "env \<Rightarrow> track \<Rightarrow> track list option \<Rightarrow> int \<Rightarrow> player \<Rightarrow> player" where
  "play_prologue env track q i p =
     haptic ''medium''
       (player_dispatch env (SET_PLAYER_STATE LOADING)
          (player_dispatch env (SET_CURRENT_TRACK track)
             (case q of None \<Rightarrow> p | Some qu \<Rightarrow> player_dispatch env (SET_QUEUE qu (Some i)) p)))"

definition play_failed :: "env \<Rightarrow> js_error \<Rightarrow> player \<Rightarrow> player" where
  "play_failed env e p =
     haptic ''error''
       (player_dispatch env (SET_ERROR (Some (ERROR_MSG_PLAYBACK env)))
          (player_dispatch env (SET_PLAYER_STATE ERROR)
             (console_error ''[Player] Play error:'' e p)))"

lemma retryCount_player_dispatch [simp]: "retryCount (player_dispatch env a p) = retryCount p"
  by (simp add: player_dispatch_def split: prod.splits)

lemma retryCount_play_failed [simp]: "retryCount (play_failed env e p) = retryCount p"
  by (simp add: play_failed_def haptic_def console_error_def)

lemma retryCount_play_prologue [simp]: "retryCount (play_prologue env t q i p) = retryCount p"
  by (simp add: play_prologue_def haptic_def split: option.splits)

lemma retryCount_loadAudio_Rejected:
  "loadAudio env url p = (Rejected e, p') \<Longrightarrow> retryCount p' = retryCount p"
  by (auto simp: loadAudio_def Let_def detachPrimaryListeners_def
           split: list.splits load_answer.splits play_answer.splits if_splits)

lemma retryCount_try_load_Rejected:
  "try_load env t p = (Rejected e, p') \<Longrightarrow> retryCount p' = retryCount p"
  by (auto simp: try_load_def split: option.splits prod.splits completion.splits
           dest: retryCount_loadAudio_Rejected)

text \<open>\<^verbatim>\<open>play\<close> and \<^verbatim>\<open>next\<close> call each other: \<^verbatim>\<open>next\<close> plays the track it moves to, and a
  failed \<^verbatim>\<open>play\<close> calls \<^verbatim>\<open>next\<close> after the delay while \<^verbatim>\<open>#retryCount\<close> is below
  \<^verbatim>\<open>AUDIO.MAX_RETRIES\<close>.  (\<open>next\<close> is a keyword of Isabelle; the method is \<open>next_track\<close>
  here.)\<close>

function play :: "env \<Rightarrow> track option \<Rightarrow> track list option \<Rightarrow> int \<Rightarrow> player \<Rightarrow> player"
  and next_track :: "env \<Rightarrow> player \<Rightarrow> player"
where
  "play env None q i p = p"
| "play env (Some track) q i p =
     (case try_load env track (play_prologue env track q i p) of
        (Fulfilled, p') \<Rightarrow> p'
      | (Suspended, p') \<Rightarrow> p'
      | (Rejected e, p') \<Rightarrow>
          if retryCount (play_failed env e p') < MAX_RETRIES env
          then next_track env
                 (sleep (RETRY_DELAY_MS env)
                    ((play_failed env e p')\<lparr>retryCount := retryCount (play_failed env e p') + 1\<rparr>))
          else play_failed env e p')"
| "next_track env p =
     (if length (activeQueue (getState (the_store p))) = 0 then p
      else if repeatMode (getState (the_store p)) = REPEAT_ONE
        then resume env (seek env 0 (haptic ''medium'' p))
      else if queueIndex (getState (the_store p)) + 1
                \<ge> int (length (activeQueue (getState (the_store p))))
        then (if repeatMode (getState (the_store p)) = REPEAT_ALL
              then play env (index_opt (activeQueue (getState (the_store p))) 0) None 0
                     (player_dispatch env (SET_QUEUE_INDEX 0) (haptic ''medium'' p))
              else player_dispatch env (SET_PLAYER_STATE ENDED) (haptic ''medium'' p))
      else play env
             (index_opt (activeQueue (getState (the_store p)))
                (queueIndex (getState (the_store p)) + 1))
             None 0
             (player_dispatch env (SET_QUEUE_INDEX (queueIndex (getState (the_store p)) + 1))
                (haptic ''medium'' p)))"
  by pat_completeness auto
termination
proof (relation "measure (\<lambda>x. case x of
          Inl (env, t, q, i, p) \<Rightarrow> 2 * (MAX_RETRIES env - retryCount p)
        | Inr (env, p) \<Rightarrow> 2 * (MAX_RETRIES env - retryCount p) + 1)", goal_cases)
  case 1
  show ?case by simp
next
  case (2 env track q i p x1 x2 x3)
  then have "retryCount x2 = retryCount p"
    using retryCount_try_load_Rejected[of env track "play_prologue env track q i p" x3 x2]
    by simp
  with 2 show ?case by (simp add: sleep_def)
next
  case (3 env p)
  then show ?case by (simp add: haptic_def)
next
  case (4 env p)
  then show ?case by (simp add: haptic_def)
qed


definition toggle :: "env \<Rightarrow> player \<Rightarrow> player" where
  "toggle env p =
     (if playerState (getState (the_store p)) = PLAYING then pause env p else resume env p)"

definition setVolume :: "env \<Rightarrow> real \<Rightarrow> player \<Rightarrow> player" where
  "setVolume env v p =
     player_dispatch env (SET_VOLUME (clamp v 0 1))
       (p\<lparr>primary := (primary p)\<lparr>el_volume := clamp v 0 1\<rparr>,
          secondary := (secondary p)\<lparr>el_volume := 0\<rparr>\<rparr>)"

definition setQueue :: "env \<Rightarrow> track list \<Rightarrow> int \<Rightarrow> player \<Rightarrow> player" where
  "setQueue env tracks startIndex p = player_dispatch env (SET_QUEUE tracks (Some startIndex)) p"

definition addToQueueNext :: "env \<Rightarrow> track \<Rightarrow> player \<Rightarrow> player" where
  "addToQueueNext env track p =
     (let q = queue (getState (the_store p));
          i = queueIndex (getState (the_store p));
          newQueue = slice q 0 (i + 1) @ [track] @ slice_from q (i + 1)
      in haptic ''success'' (player_dispatch env (SET_QUEUE newQueue (Some i)) p))"

text \<open>\<^verbatim>\<open>crossfadeTo\<close> up to its \<^verbatim>\<open>return\<close>: it awaits \<^verbatim>\<open>this.#secondary.play()\<close> (whose
  rejection it swallows), asks for the first animation frame and returns.  The ramp itself
  runs later, one \<open>tick\<close> per frame.  Called with \<^verbatim>\<open>undefined\<close>, the resolver has no track to
  read from and the call is rejected.\<close>

definition crossfadeTo :: "env \<Rightarrow> track option \<Rightarrow> player \<Rightarrow> completion \<times> player" where
  "crossfadeTo env t p =
     (case t of
        None \<Rightarrow> (Rejected (JsError ''getTrackStreamUrl''), p)
      | Some nxt \<Rightarrow>
          (case getTrackStreamUrl env nxt of
             None \<Rightarrow> (Rejected (JsError ''getTrackStreamUrl''), p)
           | Some streamUrl \<Rightarrow>
               (let p1 = player_dispatch env (SET_CROSSFADING True) p;
                    p2 = p1\<lparr>secondary := (secondary p1)\<lparr>src := streamUrl, el_volume := 0\<rparr>\<rparr>
                in case play_answers p2 of
                     [] \<Rightarrow> (Suspended, p2)
                   | ans # rest \<Rightarrow>
                       (Fulfilled,
                        requestAnimationFrame
                          \<lparr>startTime = Date_now env,
                           primaryStartVol = el_volume (primary p2),
                           targetVol = volume (getState (the_store p2)),
                           nextTrack = nxt\<rparr>
                          (p2\<lparr>play_answers := rest,
                              secondary := (secondary p2)\<lparr>paused := (ans \<noteq> Started)\<rparr>\<rparr>)))))"

text \<open>One animation frame of the crossfade: the closure \<^verbatim>\<open>tick\<close>.\<close>

definition tick :: "env \<Rightarrow> player \<Rightarrow> player" where
  "tick env p =
     (case scheduledTick p of
        None \<Rightarrow> p
      | Some job \<Rightarrow>
          (let elapsed = Date_now env - startTime job;
               t = min (elapsed / CROSSFADE_VISUAL env) 1;
               eased = easeInOutCubic t;
               p1 = p\<lparr>scheduledTick := None,
                      primary := (primary p)\<lparr>el_volume := primaryStartVol job * (1 - eased)\<rparr>,
                      secondary := (secondary p)\<lparr>el_volume := targetVol job * eased\<rparr>\<rparr>
           in if t < 1 then requestAnimationFrame job p1
              else
                (let p2 = p1\<lparr>primary := secondary p1,
                             secondary := (primary p1)\<lparr>paused := True, src := [], el_volume := 0\<rparr>\<rparr>
                 in logPlayEvent (nextTrack job)
                      (startProgressTimer
                         (attachPrimaryListeners
                            (player_dispatch env (SET_CROSSFADING False)
                               (player_dispatch env (SET_CURRENT_TRACK (nextTrack job)) p2)))))))"

text \<open>\<^verbatim>\<open>#onEnded\<close>: the handler of the active element's \<^verbatim>\<open>ended\<close> event.  In the crossfade
  branch the statement after \<^verbatim>\<open>await this.crossfadeTo(...)\<close> runs as soon as \<^verbatim>\<open>crossfadeTo\<close>
  has returned, that is before the first frame of the ramp.\<close>

definition onEnded :: "env \<Rightarrow> player \<Rightarrow> player" where
  "onEnded env p =
     (let state = getState (the_store p);
          queue = activeQueue state;
          p1 = stopProgressTimer p
      in if repeatMode state = REPEAT_ONE then resume env (seek env 0 p1)
         else if queueIndex state + 1 < int (length queue) then
           (case crossfadeTo env (index_opt queue (queueIndex state + 1))
                   (player_dispatch env (SET_QUEUE_INDEX (queueIndex state + 1)) p1) of
              (Fulfilled, p3) \<Rightarrow>
                (case index_opt queue (queueIndex state + 1) of
                   None \<Rightarrow> p3
                 | Some t \<Rightarrow> player_dispatch env (SET_CURRENT_TRACK t) p3)
            | (Rejected e, p3) \<Rightarrow> p3
            | (Suspended, p3) \<Rightarrow> p3)
         else if repeatMode state = REPEAT_ALL then
           play env (index_opt queue 0) None 0 (player_dispatch env (SET_QUEUE_INDEX 0) p1)
         else
           player_dispatch env (SET_PROGRESS 0)
             (player_dispatch env (SET_PLAYER_STATE ENDED) p1))"

declare play.simps [simp del] next_track.simps [simp del]

section \<open>Vocabulary of the engine's properties\<close>

text \<open>What \<^verbatim>\<open>play(track)\<close> meets, by the answers of the resolver and of the platform.
  \<open>load_starts\<close>: the resolver yields a locator, the platform's next answer to a load is
  \<^verbatim>\<open>canplay\<close> and its next answer to \<^verbatim>\<open>play()\<close> is that playback started.  \<open>load_blocked\<close>:
  the same, but \<^verbatim>\<open>play()\<close> is rejected by the autoplay policy.  \<open>load_pending\<close>: the platform
  has not answered the load, or has not answered \<^verbatim>\<open>play()\<close>.  \<open>load_fails\<close>: the resolver
  throws, or the load answers \<^verbatim>\<open>error\<close>, or \<^verbatim>\<open>play()\<close> is rejected for another reason than
  the autoplay policy.  One of the four always holds.\<close>

definition load_starts :: "env \<Rightarrow> track \<Rightarrow> player \<Rightarrow> bool" where
  "load_starts env t p =
     (case getTrackStreamUrl env t of
        None \<Rightarrow> False
      | Some u \<Rightarrow>
          (case load_answers p of
             CanPlay w d # rest \<Rightarrow> (case play_answers p of Started # rest' \<Rightarrow> True | _ \<Rightarrow> False)
           | _ \<Rightarrow> False))"

definition load_blocked :: "env \<Rightarrow> track \<Rightarrow> player \<Rightarrow> bool" where
  "load_blocked env t p =
     (case getTrackStreamUrl env t of
        None \<Rightarrow> False
      | Some u \<Rightarrow>
          (case load_answers p of
             CanPlay w d # rest \<Rightarrow> (case play_answers p of NotAllowedError # rest' \<Rightarrow> True | _ \<Rightarrow> False)
           | _ \<Rightarrow> False))"

definition load_pending :: "env \<Rightarrow> track \<Rightarrow> player \<Rightarrow> bool" where
  "load_pending env t p =
     (case getTrackStreamUrl env t of
        None \<Rightarrow> False
      | Some u \<Rightarrow>
          (case load_answers p of
             [] \<Rightarrow> True
           | CanPlay w d # rest \<Rightarrow> play_answers p = []
           | LoadError w # rest \<Rightarrow> False))"

definition load_fails :: "env \<Rightarrow> track \<Rightarrow> player \<Rightarrow> bool" where
  "load_fails env t p =
     (case getTrackStreamUrl env t of
        None \<Rightarrow> True
      | Some u \<Rightarrow>
          (case load_answers p of
             LoadError w # rest \<Rightarrow> True
           | CanPlay w d # rest \<Rightarrow> (case play_answers p of PlayRejected m # rest' \<Rightarrow> True | _ \<Rightarrow> False)
           | [] \<Rightarrow> False))"

text \<open>Readers of the engine's state.  \<open>sleeps\<close>: the delays the engine has waited.
  \<open>platform_calls\<close>: the calls the engine has made to the haptics, to the timer, to the play
  log and to the frame scheduler, in their order.  \<open>announced_duration\<close>: the duration that
  the platform's next answer to a load announces.  \<open>store_after env acts p\<close>: the state the
  store reaches from the state of \<open>p\<close> by the actions \<open>acts\<close>, reduced in that order.\<close>

fun sleeps :: "event list \<Rightarrow> nat list" where
  "sleeps [] = []"
| "sleeps (Slept ms # evs) = ms # sleeps evs"
| "sleeps (ev # evs) = sleeps evs"

fun platform_calls :: "event list \<Rightarrow> event list" where
  "platform_calls [] = []"
| "platform_calls (Haptic ty # evs) = Haptic ty # platform_calls evs"
| "platform_calls (Slept ms # evs) = Slept ms # platform_calls evs"
| "platform_calls (LogPlayEvent t # evs) = LogPlayEvent t # platform_calls evs"
| "platform_calls (AnimationFrameRequested # evs) = AnimationFrameRequested # platform_calls evs"
| "platform_calls (ev # evs) = platform_calls evs"

fun announced_duration :: "load_answer list \<Rightarrow> real" where
  "announced_duration (CanPlay w d # rest) = d"
| "announced_duration other = 0"

definition store_after :: "env \<Rightarrow> action list \<Rightarrow> player \<Rightarrow> app_state" where
  "store_after env acts p = foldl (next_state (random env)) (getState (the_store p)) acts"

text \<open>What \<^verbatim>\<open>play(track)\<close> leaves, from a state \<open>p\<close> in which the queue index is about to be
  set to \<open>j\<close>.  \<open>on_track j t p p'\<close>: in \<open>p'\<close> the store is at index \<open>j\<close> with \<open>t\<close> as current
  track; the active ordering, the repeat mode and the crossfading flag are those of \<open>p\<close>;
  the active element is the same element, and the standby element and the frame scheduler
  are untouched: nothing is crossfaded.  \<open>now_playing\<close>: moreover the state is \<open>PLAYING\<close>, the
  active element holds the resource of \<open>t\<close> with the announced duration, at position 0 and
  not paused, the retry counter is 0, the progress timer and the element's listeners are
  on, the platform's two answers are consumed, and the play is logged.  \<open>now_paused\<close>: the
  same load, left paused by the autoplay policy: the state is \<open>PAUSED\<close>.  \<open>now_loading\<close>: the
  platform has not answered yet.
  \<open>now_failed\<close>: the state is \<open>ERROR\<close> with the playback message.\<close>

definition on_track :: "int \<Rightarrow> track \<Rightarrow> player \<Rightarrow> player \<Rightarrow> bool" where
  "on_track j t p p' \<longleftrightarrow>
     queueIndex (getState (the_store p')) = j \<and>
     map_option track_id (currentTrack (getState (the_store p'))) = Some (track_id t) \<and>
     activeQueue (getState (the_store p')) = activeQueue (getState (the_store p)) \<and>
     repeatMode (getState (the_store p')) = repeatMode (getState (the_store p)) \<and>
     isCrossfading (getState (the_store p')) = isCrossfading (getState (the_store p)) \<and>
     element_id (primary p') = element_id (primary p) \<and>
     secondary p' = secondary p \<and>
     scheduledTick p' = scheduledTick p"




definition now_failed :: "env \<Rightarrow> int \<Rightarrow> track \<Rightarrow> player \<Rightarrow> player \<Rightarrow> bool" where
  "now_failed env j t p p' \<longleftrightarrow>
     on_track j t p p' \<and>
     playerState (getState (the_store p')) = ERROR \<and>
     error (getState (the_store p')) = Some (ERROR_MSG_PLAYBACK env) \<and>
     getState (the_store p') =
       store_after env
         ([SET_QUEUE_INDEX j, SET_CURRENT_TRACK t] @
          (case getTrackStreamUrl env t of
             None \<Rightarrow> []
           | Some u \<Rightarrow> [SET_PROGRESS 0, SET_DURATION (announced_duration (load_answers p))]) @
          [SET_PLAYER_STATE ERROR, SET_ERROR (Some (ERROR_MSG_PLAYBACK env))]) p \<and>
     src (primary p') = (case getTrackStreamUrl env t of None \<Rightarrow> src (primary p) | Some u \<Rightarrow> u) \<and>
     load_answers p' =
       (case getTrackStreamUrl env t of None \<Rightarrow> load_answers p | Some u \<Rightarrow> tl (load_answers p)) \<and>
     play_answers p' =
       (case getTrackStreamUrl env t of
          None \<Rightarrow> play_answers p
        | Some u \<Rightarrow>
            (case load_answers p of
               CanPlay w d # rest \<Rightarrow> tl (play_answers p)
             | _ \<Rightarrow> play_answers p))"









section \<open>A test fixture\<close>

text \<open>The scenario of the specification's testable properties: tracks A, B and C, a store
  in its initial state with two general subscribers and two selector subscriptions (on
  \<open>volume\<close> and on \<open>progress\<close>); the first subscriber and the \<open>volume\<close> handler throw.\<close>

definition fixture_trackA :: track where
  "fixture_trackA = \<lparr>track_id = ''a'', name = ''A'', artist_name = ''X'', image = [],
                      audio = ''a.mp3'', track_duration = 200\<rparr>"

definition fixture_trackB :: track where
  "fixture_trackB = \<lparr>track_id = ''b'', name = ''B'', artist_name = ''X'', image = [],
                      audio = ''b.mp3'', track_duration = 180\<rparr>"

definition fixture_trackC :: track where
  "fixture_trackC = \<lparr>track_id = ''c'', name = ''C'', artist_name = ''Y'', image = [],
                      audio = ''c.mp3'', track_duration = 240\<rparr>"

definition fixture_state :: app_state where
  "fixture_state =
     createInitialState
       \<lparr>stored_volume = 1, stored_repeat = REPEAT_NONE, stored_shuffle = False,
        stored_liked = [], stored_library = [], stored_recent = [], stored_pro = False\<rparr>
       ''home'' ''#1a1a2e'' ''#16213e''"

definition fixture_rnd :: "nat \<Rightarrow> real" where
  "fixture_rnd k = 0"

definition fixture_listener0 :: listener where
  "fixture_listener0 =
     \<lparr>listener_ref = 0, listener_body = (\<lambda>n p a. Some (JsError ''subscriber failed''))\<rparr>"

definition fixture_listener1 :: listener where
  "fixture_listener1 = \<lparr>listener_ref = 1, listener_body = (\<lambda>n p a. None)\<rparr>"

definition fixture_volume_selector :: selector_fn where
  "fixture_volume_selector = \<lparr>selector_ref = 0, selector_body = selectors_volume\<rparr>"

definition fixture_progress_selector :: selector_fn where
  "fixture_progress_selector = \<lparr>selector_ref = 1, selector_body = selectors_progress\<rparr>"

definition fixture_volume_handler :: handler_fn where
  "fixture_volume_handler =
     \<lparr>handler_ref = 0, handler_body = (\<lambda>v w. Some (JsError ''volume handler failed''))\<rparr>"

definition fixture_progress_handler :: handler_fn where
  "fixture_progress_handler = \<lparr>handler_ref = 1, handler_body = (\<lambda>v w. None)\<rparr>"

definition fixture_store :: store where
  "fixture_store =
     \<lparr>state = fixture_state,
      listeners = [fixture_listener0, fixture_listener1],
      selectorListeners =
        [(0, [\<lparr>entry_ref = 0, selector = fixture_volume_selector,
                handler = fixture_volume_handler, lastValue = Number 1\<rparr>]),
         (1, [\<lparr>entry_ref = 1, selector = fixture_progress_selector,
                handler = fixture_progress_handler, lastValue = Number 0\<rparr>])],
      next_ref = 2\<rparr>"

text \<open>The engine's side of the fixture: constants, a resolver that returns the track's
  \<open>audio\<close>, a player whose active element holds track A at a given position, with a given
  retry count and given coming answers of the platform, over a store in a given state.\<close>

definition fixture_env :: env where
  "fixture_env =
     \<lparr>MAX_RETRIES = 3, RETRY_DELAY_MS = 1000, CROSSFADE_VISUAL = 3000,
      ERROR_MSG_PLAYBACK = ''Playback failed'', getTrackStreamUrl = (\<lambda>t. Some (audio t)),
      random = fixture_rnd, Date_now = 0\<rparr>"

definition fixture_queue_state :: "track list \<Rightarrow> int \<Rightarrow> REPEAT_MODE \<Rightarrow> real \<Rightarrow> app_state" where
  "fixture_queue_state q i r pr =
     fixture_state\<lparr>currentTrack := Some fixture_trackA, playerState := PLAYING, progress := pr,
                   duration := 200, queue := q, queueIndex := i, repeatMode := r\<rparr>"

definition fixture_player :: "app_state \<Rightarrow> real \<Rightarrow> nat \<Rightarrow> load_answer list \<Rightarrow> play_answer list \<Rightarrow> player" where
  "fixture_player s position retries loads plays =
     (new_AudioPlayer (new_Store s) 0 0 loads plays)
       \<lparr>primary := \<lparr>element_id = ''aura-audio-primary'', src = ''a.mp3'', currentTime = position,
                    el_duration = Some 200, el_volume = 1, paused = False\<rparr>,
        retryCount := retries, progressTimer := True, boundHandlers := True\<rparr>"

definition fixture_abc :: "track list" where
  "fixture_abc = [fixture_trackA, fixture_trackB, fixture_trackC]"



definition fixture_stream_player :: "app_state \<Rightarrow> real \<Rightarrow> play_answer list \<Rightarrow> player" where
  "fixture_stream_player s position plays =
     (fixture_player s position 0 [] plays)
       \<lparr>primary := \<lparr>element_id = ''aura-audio-primary'', src = ''a.mp3'', currentTime = position,
                    el_duration = None, el_volume = 1, paused = False\<rparr>\<rparr>"

section \<open>Properties of the store\<close>

lemma handler_calls_append: "handler_calls r (xs @ ys) = handler_calls r xs + handler_calls r ys"
  by (induction r xs rule: handler_calls.induct) auto

lemma handler_call_refs_append: "handler_call_refs (xs @ ys) = handler_call_refs xs @ handler_call_refs ys"
  by (induction xs rule: handler_call_refs.induct) auto

lemma listener_calls_append: "listener_calls (xs @ ys) = listener_calls xs @ listener_calls ys"
  by (induction xs rule: listener_calls.induct) auto

lemma console_errors_append: "console_errors (xs @ ys) = console_errors xs @ console_errors ys"
  by (induction xs rule: console_errors.induct) auto

lemma handler_calls_count: "handler_calls r evs = count_list (handler_call_refs evs) r"
  by (induction r evs rule: handler_calls.induct) auto

lemma notify_entries_normal:
  "notify_entries ns es = (es', evs, None) \<Longrightarrow> e \<in> set es \<Longrightarrow> \<exists>v. selector_body (selector e) ns = Inr v"
  by (induction es arbitrary: es' evs) (auto split: sum.splits if_splits prod.splits)

lemma notify_entries_refs:
  "notify_entries ns es = (es', evs, None) \<Longrightarrow> handler_call_refs evs = map entry_ref (filter (due ns) es)"
  by (induction es arbitrary: es' evs)
     (auto split: sum.splits if_splits prod.splits option.splits simp: due_def handler_call_refs_append)

lemma notify_entries_thrown_refs:
  "notify_entries ns es = (es', evs, thrown) \<Longrightarrow> set (handler_call_refs evs) \<subseteq> entry_ref ` set (filter (due ns) es)"
  by (induction es arbitrary: es' evs)
     (auto split: sum.splits if_splits prod.splits option.splits simp: due_def handler_call_refs_append)

lemma notify_selectors_normal:
  "notify_selectors ns groups = (groups', evs, None) \<Longrightarrow> e \<in> set (concat (map snd groups)) \<Longrightarrow>
     \<exists>v. selector_body (selector e) ns = Inr v"
proof (induction groups arbitrary: groups' evs)
  case Nil then show ?case by simp
next
  case (Cons g groups)
  obtain k es where g: "g = (k, es)" by (cases g)
  obtain es1 evs1 t1 where n1: "notify_entries ns es = (es1, evs1, t1)" by (cases "notify_entries ns es")
  with Cons.prems g have t1: "t1 = None" by (auto split: option.splits prod.splits)
  obtain g2 evs2 t2 where n2: "notify_selectors ns groups = (g2, evs2, t2)" by (cases "notify_selectors ns groups")
  with Cons.prems g n1 t1 have t2: "t2 = None" by auto
  show ?case using Cons.prems(2) g notify_entries_normal[OF n1[unfolded t1]] Cons.IH[OF n2[unfolded t2]]
    by auto
qed

lemma notify_selectors_refs:
  "notify_selectors ns groups = (groups', evs, None) \<Longrightarrow>
     handler_call_refs evs = map entry_ref (filter (due ns) (concat (map snd groups)))"
proof (induction groups arbitrary: groups' evs)
  case Nil then show ?case by simp
next
  case (Cons g groups)
  obtain k es where g: "g = (k, es)" by (cases g)
  obtain es1 evs1 t1 where n1: "notify_entries ns es = (es1, evs1, t1)" by (cases "notify_entries ns es")
  with Cons.prems g have t1: "t1 = None" by (auto split: option.splits prod.splits)
  obtain g2 evs2 t2 where n2: "notify_selectors ns groups = (g2, evs2, t2)" by (cases "notify_selectors ns groups")
  with Cons.prems g n1 t1 have t2: "t2 = None" and evs: "evs = evs1 @ evs2" by auto
  show ?case using g evs notify_entries_refs[OF n1[unfolded t1]] Cons.IH[OF n2[unfolded t2]]
    by (simp add: handler_call_refs_append)
qed

lemma notify_selectors_thrown_refs:
  "notify_selectors ns groups = (groups', evs, thrown) \<Longrightarrow>
     set (handler_call_refs evs) \<subseteq> entry_ref ` set (filter (due ns) (concat (map snd groups)))"
proof (induction groups arbitrary: groups' evs thrown)
  case Nil then show ?case by simp
next
  case (Cons g groups)
  obtain k es where g: "g = (k, es)" by (cases g)
  obtain es1 evs1 t1 where n1: "notify_entries ns es = (es1, evs1, t1)" by (cases "notify_entries ns es")
  obtain g2 evs2 t2 where n2: "notify_selectors ns groups = (g2, evs2, t2)" by (cases "notify_selectors ns groups")
  show ?case
  proof (cases t1)
    case None
    with Cons.prems g n1 n2 have evs: "evs = evs1 @ evs2" by auto
    show ?thesis using g evs notify_entries_thrown_refs[OF n1] Cons.IH[OF n2]
      by (simp add: handler_call_refs_append image_Un) blast
  next
    case (Some x)
    with Cons.prems g n1 have evs: "evs = evs1" by auto
    show ?thesis using g evs notify_entries_thrown_refs[OF n1] by auto
  qed
qed

lemma notify_listeners_calls: "listener_calls (notify_listeners ls ns ps a) = map listener_ref ls"
  by (induction ls) (auto split: option.splits simp: listener_calls_append)

lemma notify_listeners_no_handler: "handler_call_refs (notify_listeners ls ns ps a) = []"
  by (induction ls) (auto split: option.splits simp: handler_call_refs_append)

lemma dispatch_New:
  "reduce rnd (state st) a = New ns \<Longrightarrow> notify_selectors ns (selectorListeners st) = (g, evs, t) \<Longrightarrow>
   dispatch rnd st a = (st\<lparr>state := ns, selectorListeners := g\<rparr>,
      notify_listeners (listeners st) ns (state st) a @ evs @ (case t of None \<Rightarrow> [BusEmit a] | Some x \<Rightarrow> []), t)"
  by (cases t) (simp_all add: dispatch_def)

lemma dispatch_Same: "reduce rnd (state st) a = Same \<Longrightarrow> dispatch rnd st a = (st, [], None)"
  by (simp add: dispatch_def)

lemma shallowEqual_Number: "shallowEqual (Number x) b \<longleftrightarrow> b = Number x"
  by (cases b) (auto simp: shallowEqual_def)

lemma shallowEqual_refl: "shallowEqual a a"
  by (cases a) (auto simp: shallowEqual_def)

lemma count_list_distinct_map:
  "distinct (map f xs) \<Longrightarrow> e \<in> set xs \<Longrightarrow> count_list (map f (filter P xs)) (f e) = (if P e then 1 else 0)"
proof (induction xs)
  case Nil then show ?case by simp
next
  case (Cons x xs)
  have notin: "y \<in> set xs \<Longrightarrow> f y \<noteq> f x" for y using Cons.prems(1) by (force simp: image_iff)
  have zero: "count_list (map f (filter P xs)) (f x) = 0"
    using notin by (fastforce simp: count_list_0_iff)
  show ?case
  proof (cases "e = x")
    case True
    then show ?thesis using zero by simp
  next
    case False
    then have "e \<in> set xs" using Cons.prems by simp
    moreover have "f e \<noteq> f x" using notin[OF \<open>e \<in> set xs\<close>] .
    ultimately show ?thesis using Cons by auto
  qed
qed

lemma selector_handler_exactly_once:
  assumes r: "reduce rnd (state st) a = New ns"
      and e: "e \<in> set (all_entries st)"
      and d: "distinct (map entry_ref (all_entries st))"
      and n: "dispatch rnd st a = (st', evs, None)"
  shows "\<exists>v. selector_body (selector e) ns = Inr v \<and>
             handler_calls (entry_ref e) evs = (if shallowEqual v (lastValue e) then 0 else 1)"
proof -
  obtain g evsS t where ns: "notify_selectors ns (selectorListeners st) = (g, evsS, t)"
    by (cases "notify_selectors ns (selectorListeners st)")
  from dispatch_New[OF r ns] n have t: "t = None"
    and evs: "evs = notify_listeners (listeners st) ns (state st) a @ evsS @ [BusEmit a]" by auto
  from notify_selectors_normal[OF ns[unfolded t]] e obtain v where v: "selector_body (selector e) ns = Inr v"
    by (auto simp: all_entries_def)
  have "handler_call_refs evs = map entry_ref (filter (due ns) (all_entries st))"
    using notify_selectors_refs[OF ns[unfolded t]]
    by (simp add: evs handler_call_refs_append notify_listeners_no_handler all_entries_def)
  then have "handler_calls (entry_ref e) evs = (if due ns e then 1 else 0)"
    using count_list_distinct_map[OF d e, of "due ns"] by (simp add: handler_calls_count)
  then show ?thesis using v by (auto simp: due_def)
qed

lemma notify_entries_total:
  "\<forall>e\<in>set es. \<exists>v. selector_body (selector e) ns = Inr v \<Longrightarrow> \<exists>es' evs. notify_entries ns es = (es', evs, None)"
  by (induction es) (auto split: sum.splits prod.splits)

lemma notify_selectors_total:
  "\<forall>e\<in>set (concat (map snd groups)). \<exists>v. selector_body (selector e) ns = Inr v \<Longrightarrow>
   \<exists>g' evs. notify_selectors ns groups = (g', evs, None)"
proof (induction groups)
  case Nil then show ?case by simp
next
  case (Cons g groups)
  obtain k es where g: "g = (k, es)" by (cases g)
  from Cons.prems g obtain es1 evs1 where n1: "notify_entries ns es = (es1, evs1, None)"
    using notify_entries_total[of es ns] by auto
  from Cons obtain g2 evs2 where n2: "notify_selectors ns groups = (g2, evs2, None)" by auto
  show ?case using g n1 n2 by simp
qed

lemma notify_entries_errors:
  "notify_entries ns es = (es', evs, None) \<Longrightarrow>
   console_errors evs = List.map_filter (handler_outcome ns) (filter (due ns) es)"
  by (induction es arbitrary: es' evs)
     (auto split: sum.splits if_splits prod.splits option.splits
           simp: due_def handler_outcome_def console_errors_append List.map_filter_def)

lemma notify_selectors_errors:
  "notify_selectors ns groups = (groups', evs, None) \<Longrightarrow>
     console_errors evs = List.map_filter (handler_outcome ns) (filter (due ns) (concat (map snd groups)))"
proof (induction groups arbitrary: groups' evs)
  case Nil then show ?case by (simp add: List.map_filter_def)
next
  case (Cons g groups)
  obtain k es where g: "g = (k, es)" by (cases g)
  obtain es1 evs1 t1 where n1: "notify_entries ns es = (es1, evs1, t1)" by (cases "notify_entries ns es")
  with Cons.prems g have t1: "t1 = None" by (auto split: option.splits prod.splits)
  obtain g2 evs2 t2 where n2: "notify_selectors ns groups = (g2, evs2, t2)" by (cases "notify_selectors ns groups")
  with Cons.prems g n1 t1 have t2: "t2 = None" and evs: "evs = evs1 @ evs2" by auto
  show ?case using g evs notify_entries_errors[OF n1[unfolded t1]] Cons.IH[OF n2[unfolded t2]]
    by (simp add: console_errors_append List.map_filter_def)
qed

lemma notify_listeners_errors:
  "console_errors (notify_listeners ls ns ps a) = List.map_filter (\<lambda>l. listener_body l ns ps a) ls"
  by (induction ls) (auto split: option.splits simp: console_errors_append List.map_filter_def)

lemma notify_entries_no_listener:
  "notify_entries ns es = (es', evs, t) \<Longrightarrow> listener_calls evs = []"
  by (induction es arbitrary: es' evs t)
     (auto split: sum.splits if_splits prod.splits option.splits simp: listener_calls_append)

lemma notify_selectors_no_listener:
  "notify_selectors ns groups = (groups', evs, t) \<Longrightarrow> listener_calls evs = []"
proof (induction groups arbitrary: groups' evs t)
  case Nil then show ?case by simp
next
  case (Cons g groups)
  obtain k es where g: "g = (k, es)" by (cases g)
  obtain es1 evs1 t1 where n1: "notify_entries ns es = (es1, evs1, t1)" by (cases "notify_entries ns es")
  obtain g2 evs2 t2 where n2: "notify_selectors ns groups = (g2, evs2, t2)" by (cases "notify_selectors ns groups")
  show ?case using Cons.prems g n1 n2 notify_entries_no_listener[OF n1] Cons.IH[OF n2]
    by (cases t1) (auto simp: listener_calls_append)
qed

lemma store_inv_iff:
  "store_inv st \<longleftrightarrow>
     distinct (map entry_ref (all_entries st)) \<and>
     (\<forall>e\<in>set (all_entries st). entry_ref e < next_ref st \<and> in_sync (state st) e)"
  by (simp add: store_inv_def list_all_iff)

lemma notify_entries_keeps_refs:
  "notify_entries ns es = (es', evs, t) \<Longrightarrow> map entry_ref es' = map entry_ref es"
  by (induction es arbitrary: es' evs t) (auto split: sum.splits if_splits prod.splits)

lemma notify_selectors_keeps_refs:
  "notify_selectors ns groups = (groups', evs, t) \<Longrightarrow>
   map entry_ref (concat (map snd groups')) = map entry_ref (concat (map snd groups))"
proof (induction groups arbitrary: groups' evs t)
  case Nil then show ?case by simp
next
  case (Cons g groups)
  obtain k es where g: "g = (k, es)" by (cases g)
  obtain es1 evs1 t1 where n1: "notify_entries ns es = (es1, evs1, t1)" by (cases "notify_entries ns es")
  obtain g2 evs2 t2 where n2: "notify_selectors ns groups = (g2, evs2, t2)" by (cases "notify_selectors ns groups")
  show ?case using Cons.prems g n1 n2 notify_entries_keeps_refs[OF n1] Cons.IH[OF n2]
    by (cases t1) auto
qed

lemma notify_entries_in_sync:
  "notify_entries ns es = (es', evs, None) \<Longrightarrow> e \<in> set es' \<Longrightarrow> in_sync ns e"
  by (induction es arbitrary: es' evs)
     (auto split: sum.splits if_splits prod.splits simp: in_sync_def shallowEqual_refl)

lemma notify_selectors_in_sync:
  "notify_selectors ns groups = (groups', evs, None) \<Longrightarrow> e \<in> set (concat (map snd groups')) \<Longrightarrow> in_sync ns e"
proof (induction groups arbitrary: groups' evs)
  case Nil then show ?case by simp
next
  case (Cons g groups)
  obtain k es where g: "g = (k, es)" by (cases g)
  obtain es1 evs1 t1 where n1: "notify_entries ns es = (es1, evs1, t1)" by (cases "notify_entries ns es")
  with Cons.prems g have t1: "t1 = None" by (auto split: option.splits prod.splits)
  obtain g2 evs2 t2 where n2: "notify_selectors ns groups = (g2, evs2, t2)" by (cases "notify_selectors ns groups")
  with Cons.prems g n1 t1 have t2: "t2 = None" and gs: "groups' = (k, es1) # g2" by auto
  show ?case using Cons.prems(2) gs notify_entries_in_sync[OF n1[unfolded t1]] Cons.IH[OF n2[unfolded t2]]
    by auto
qed

lemma mset_add_entry:
  "mset (concat (map snd (add_entry k e groups))) = add_mset e (mset (concat (map snd groups)))"
  by (induction groups) auto

lemma subseq_unselect:
  "subseq (concat (map snd (map (\<lambda>(k', es). if k' = k then (k', filter P es) else (k', es)) groups)))
          (concat (map snd groups))"
  by (induction groups) (auto intro!: list_emb_append_mono)

lemma store_inv_dispatch:
  assumes "store_inv st" and d: "dispatch rnd st a = (st', evs, None)"
  shows "store_inv st'"
proof (cases "reduce rnd (state st) a")
  case Same
  then show ?thesis using assms by (simp add: dispatch_def)
next
  case (New ns)
  obtain g evsS t where n: "notify_selectors ns (selectorListeners st) = (g, evsS, t)"
    by (cases "notify_selectors ns (selectorListeners st)")
  from dispatch_New[OF New n] d have t: "t = None" and st': "st' = st\<lparr>state := ns, selectorListeners := g\<rparr>"
    by auto
  have refs: "map entry_ref (all_entries st') = map entry_ref (all_entries st)"
    using notify_selectors_keeps_refs[OF n] by (simp add: st' all_entries_def)
  have sync: "\<forall>e\<in>set (all_entries st'). in_sync (state st') e"
    using notify_selectors_in_sync[OF n[unfolded t]] by (simp add: st' all_entries_def)
  have bound: "\<forall>e\<in>set (all_entries st'). entry_ref e < next_ref st'"
  proof
    fix e assume "e \<in> set (all_entries st')"
    then have "entry_ref e \<in> set (map entry_ref (all_entries st))" using refs by (metis imageI set_map)
    then show "entry_ref e < next_ref st'" using assms(1) by (auto simp: store_inv_iff st')
  qed
  show ?thesis using assms(1) refs sync bound by (simp add: store_inv_iff)
qed

lemma store_inv_select:
  assumes "store_inv st" and s: "select st sel h = Inr (st', r)"
  shows "store_inv st'"
proof -
  from s obtain v where v: "selector_body sel (state st) = Inr v"
    and st': "st' = st\<lparr>selectorListeners :=
                     add_entry (selector_ref sel)
                       \<lparr>entry_ref = next_ref st, selector = sel, handler = h, lastValue = v\<rparr>
                       (selectorListeners st),
                   next_ref := Suc (next_ref st)\<rparr>"
    by (auto simp: select_def split: sum.splits)
  let ?e = "\<lparr>entry_ref = next_ref st, selector = sel, handler = h, lastValue = v\<rparr>"
  have m: "mset (all_entries st') = add_mset ?e (mset (all_entries st))"
    by (simp add: st' all_entries_def mset_add_entry)
  then have "mset (map entry_ref (all_entries st')) = mset (map entry_ref (?e # all_entries st))"
    by (metis mset.simps(2) mset_map)
  then have "distinct (map entry_ref (all_entries st')) = distinct (map entry_ref (?e # all_entries st))"
    by (rule mset_eq_imp_distinct_iff)
  moreover have "distinct (map entry_ref (?e # all_entries st))"
    using assms(1) by (auto simp: store_inv_iff)
  moreover have "set (all_entries st') = insert ?e (set (all_entries st))"
    using m by (metis mset.simps(2) set_mset_mset list.simps(15) mset_eq_setD)
  moreover have "in_sync (state st) ?e" by (simp add: in_sync_def v shallowEqual_refl)
  moreover have "state st' = state st" "next_ref st' = Suc (next_ref st)" by (simp_all add: st')
  ultimately show ?thesis using assms(1) by (auto simp: store_inv_iff less_Suc_eq)
qed

lemma subseq_distinct: "subseq xs ys \<Longrightarrow> distinct ys \<Longrightarrow> distinct xs"
  by (auto simp: subseq_conv_nths)

lemma subseq_set: "subseq xs ys \<Longrightarrow> set xs \<subseteq> set ys"
  by (auto simp: subseq_conv_nths dest: in_set_nthsD)

lemma store_inv_unselect:
  assumes "store_inv st" shows "store_inv (unselect st k r)"
proof -
  have ss: "subseq (all_entries (unselect st k r)) (all_entries st)"
    using subseq_unselect[of k "\<lambda>e. entry_ref e \<noteq> r" "selectorListeners st"]
    by (simp add: unselect_def all_entries_def)
  then have "subseq (map entry_ref (all_entries (unselect st k r))) (map entry_ref (all_entries st))"
    by (rule subseq_map)
  then have "distinct (map entry_ref (all_entries (unselect st k r)))"
    using assms by (auto simp: store_inv_iff intro: subseq_distinct)
  moreover have "set (all_entries (unselect st k r)) \<subseteq> set (all_entries st)"
    using ss by (rule subseq_set)
  moreover have "state (unselect st k r) = state st" "next_ref (unselect st k r) = next_ref st"
    by (simp_all add: unselect_def)
  ultimately show ?thesis using assms by (auto simp: store_inv_iff)
qed

lemma reachable_inv: "reachable st \<Longrightarrow> store_inv st"
proof (induction rule: reachable.induct)
  case (fresh s)
  then show ?case by (simp add: store_inv_iff all_entries_def new_Store_def)
next
  case (after_dispatch st rnd a st' evs)
  then show ?case using store_inv_dispatch by blast
next
  case (after_select st sel h st' r)
  then show ?case using store_inv_select by blast
next
  case (after_unselect st k r)
  then show ?case using store_inv_unselect by blast
next
  case (after_subscribe st l)
  then show ?case by (simp add: store_inv_iff subscribe_def all_entries_def)
next
  case (after_unsubscribe st r)
  then show ?case by (simp add: store_inv_iff unsubscribe_def all_entries_def)
qed

lemma state_after_dispatch: "getState (fst (dispatch rnd st a)) = next_state rnd (state st) a"
proof (cases "reduce rnd (state st) a")
  case Same
  then show ?thesis by (simp add: dispatch_Same next_state_def getState_def)
next
  case (New ns)
  obtain g evs t where n: "notify_selectors ns (selectorListeners st) = (g, evs, t)"
    by (cases "notify_selectors ns (selectorListeners st)")
  show ?thesis by (simp add: dispatch_New[OF New n] next_state_def New getState_def)
qed

lemma mset_swap_entries: "mset (swap_entries i j arr) = mset arr"
  by (simp add: swap_entries_def mset_swap)

lemma mset_shuffle_loop: "mset (shuffle_loop i rnd k arr) = mset arr"
  by (induction i arbitrary: k arr) (simp_all add: mset_swap_entries)

lemma mset_shuffleArray: "mset (shuffleArray rnd arr) = mset arr"
  by (simp add: shuffleArray_def mset_shuffle_loop)

lemma reachable_fixture_store: "reachable fixture_store"
proof -
  let ?s0 = "new_Store fixture_state"
  let ?s1 = "subscribe ?s0 fixture_listener0"
  let ?s2 = "subscribe ?s1 fixture_listener1"
  have r2: "reachable ?s2" by (intro reachable.after_subscribe reachable.fresh)
  have v: "volume fixture_state = 1" and pr: "progress fixture_state = 0"
    by (simp_all add: fixture_state_def createInitialState_def)
  obtain s3 where s3: "select ?s2 fixture_volume_selector fixture_volume_handler = Inr (s3, 0)"
    by (simp add: select_def new_Store_def subscribe_def fixture_volume_selector_def
          selectors_volume_def fixture_listener0_def fixture_listener1_def)
  have r3: "reachable s3" using r2 s3 by (rule reachable.after_select)
  have e3: "s3 = \<lparr>state = fixture_state, listeners = [fixture_listener0, fixture_listener1],
      selectorListeners =
        [(0, [\<lparr>entry_ref = 0, selector = fixture_volume_selector,
                handler = fixture_volume_handler, lastValue = Number 1\<rparr>])], next_ref = 1\<rparr>"
    using s3 by (simp add: select_def new_Store_def subscribe_def fixture_volume_selector_def
          selectors_volume_def fixture_listener0_def fixture_listener1_def v)
  have "select s3 fixture_progress_selector fixture_progress_handler = Inr (fixture_store, 1)"
    by (simp add: e3 select_def fixture_progress_selector_def fixture_volume_selector_def
          selectors_progress_def pr fixture_store_def)
  with r3 show ?thesis by (rule reachable.after_select)
qed

section \<open>Claims about the store\<close>

text \<open>
  C2.  For every dispatched action: if the reducer returns the same state reference, the
  store after \<^verbatim>\<open>dispatch\<close> is the store before (the state reference included) and no
  subscriber, general or selector-based, is invoked; otherwise \<^verbatim>\<open>getState()\<close> afterwards
  returns exactly the reduced next state.  A \<open>SET_PROGRESS\<close> whose payload differs from the
  stored progress by less than 0.1 seconds is such a no-op.
\<close>

theorem dispatch_noop_or_reduced:
  "(reduce rnd (state st) a = Same \<longrightarrow> dispatch rnd st a = (st, [], None)) \<and>
   (\<forall>ns. reduce rnd (state st) a = New ns \<longrightarrow> getState (fst (dispatch rnd st a)) = ns) \<and>
   (\<bar>progress (getState st) - p\<bar> < 0.1 \<longrightarrow> dispatch rnd st (SET_PROGRESS p) = (st, [], None))"
proof (intro conjI allI impI)
  assume "reduce rnd (state st) a = Same"
  then show "dispatch rnd st a = (st, [], None)" by (rule dispatch_Same)
next
  fix ns assume r: "reduce rnd (state st) a = New ns"
  show "getState (fst (dispatch rnd st a)) = ns"
    by (simp add: state_after_dispatch next_state_def r)
next
  assume "\<bar>progress (getState st) - p\<bar> < 0.1"
  then have "reduce rnd (state st) (SET_PROGRESS p) = Same" by (simp add: getState_def)
  then show "dispatch rnd st (SET_PROGRESS p) = (st, [], None)" by (rule dispatch_Same)
qed

theorem dispatch_noop_or_reduced_witness:
  "reduce fixture_rnd (state fixture_store) (OTHER ''NOPE'') = Same \<and>
   dispatch fixture_rnd fixture_store (OTHER ''NOPE'') = (fixture_store, [], None) \<and>
   reduce fixture_rnd (state fixture_store) (SET_QUEUE_INDEX 2) = New (fixture_state\<lparr>queueIndex := 2\<rparr>) \<and>
   getState (fst (dispatch fixture_rnd fixture_store (SET_QUEUE_INDEX 2))) = fixture_state\<lparr>queueIndex := 2\<rparr> \<and>
   \<bar>progress (getState fixture_store) - 0.05\<bar> < 0.1 \<and>
   dispatch fixture_rnd fixture_store (SET_PROGRESS 0.05) = (fixture_store, [], None)"
proof -
  have s: "state fixture_store = fixture_state" by (simp add: fixture_store_def)
  have p: "progress fixture_state = 0" by (simp add: fixture_state_def createInitialState_def)
  have h1: "reduce fixture_rnd (state fixture_store) (OTHER ''NOPE'') = Same" by simp
  have h2: "reduce fixture_rnd (state fixture_store) (SET_QUEUE_INDEX 2) = New (fixture_state\<lparr>queueIndex := 2\<rparr>)"
    by (simp add: s)
  have h3: "\<bar>progress (getState fixture_store) - 0.05\<bar> < 0.1" by (simp add: getState_def s p)
  show ?thesis
    using dispatch_noop_or_reduced[of fixture_rnd fixture_store "OTHER ''NOPE''" "0.05"]
          dispatch_noop_or_reduced[of fixture_rnd fixture_store "SET_QUEUE_INDEX 2" "0.05"]
          h1 h2 h3
    by simp
qed

text \<open>
  C3.  For every selector subscription registered via \<^verbatim>\<open>select\<close> (an entry of a reachable
  store) and every dispatch that changes the state and returns: the handler is invoked
  exactly once if the selector's value on the new state is not shallow-equal to its last
  observed value, and not at all otherwise.  In particular a subscription on
  \<^verbatim>\<open>selectors.volume\<close> is not invoked by a dispatch that leaves the volume as it is, such
  as one that changes only the progress.
\<close>

theorem selector_handler_fires_once_per_change:
  assumes re: "reachable st"
      and r: "reduce rnd (state st) a = New ns"
      and e: "e \<in> set (all_entries st)"
      and n: "dispatch rnd st a = (st', evs, None)"
  shows "(\<exists>v. selector_body (selector e) ns = Inr v \<and>
             handler_calls (entry_ref e) evs = (if shallowEqual v (lastValue e) then 0 else 1)) \<and>
         (selector_body (selector e) = selectors_volume \<longrightarrow> volume ns = volume (state st) \<longrightarrow>
             handler_calls (entry_ref e) evs = 0)"
proof -
  have inv: "store_inv st" using re by (rule reachable_inv)
  then have d: "distinct (map entry_ref (all_entries st))" by (simp add: store_inv_iff)
  have main: "\<exists>v. selector_body (selector e) ns = Inr v \<and>
             handler_calls (entry_ref e) evs = (if shallowEqual v (lastValue e) then 0 else 1)"
    by (rule selector_handler_exactly_once[OF r e d n])
  have "handler_calls (entry_ref e) evs = 0"
    if sv: "selector_body (selector e) = selectors_volume" and same: "volume ns = volume (state st)"
  proof -
    have "in_sync (state st) e" using inv e by (simp add: store_inv_iff)
    then have "lastValue e = Number (volume (state st))"
      by (simp add: in_sync_def sv selectors_volume_def shallowEqual_Number)
    then show ?thesis
      using main by (auto simp: sv selectors_volume_def same shallowEqual_Number)
  qed
  with main show ?thesis by blast
qed

theorem selector_handler_fires_once_per_change_witness:
  "reachable fixture_store \<and>
   reduce fixture_rnd (state fixture_store) (SET_PROGRESS 5) = New (fixture_state\<lparr>progress := 5\<rparr>) \<and>
   snd (snd (dispatch fixture_rnd fixture_store (SET_PROGRESS 5))) = None \<and>
   handler_calls 0 (fst (snd (dispatch fixture_rnd fixture_store (SET_PROGRESS 5)))) = 0 \<and>
   handler_calls 1 (fst (snd (dispatch fixture_rnd fixture_store (SET_PROGRESS 5)))) = 1"
proof -
  let ?ns = "fixture_state\<lparr>progress := 5\<rparr>"
  let ?ev = "\<lparr>entry_ref = 0, selector = fixture_volume_selector,
                handler = fixture_volume_handler, lastValue = Number 1\<rparr>"
  let ?ep = "\<lparr>entry_ref = 1, selector = fixture_progress_selector,
                handler = fixture_progress_handler, lastValue = Number 0\<rparr>"
  have s: "state fixture_store = fixture_state" by (simp add: fixture_store_def)
  have p: "progress fixture_state = 0" and v: "volume fixture_state = 1"
    by (simp_all add: fixture_state_def createInitialState_def)
  have r: "reduce fixture_rnd (state fixture_store) (SET_PROGRESS 5) = New ?ns"
    by (simp add: s p)
  have es: "all_entries fixture_store = [?ev, ?ep]"
    by (simp add: all_entries_def fixture_store_def)
  obtain st' evs t where d: "dispatch fixture_rnd fixture_store (SET_PROGRESS 5) = (st', evs, t)"
    by (cases "dispatch fixture_rnd fixture_store (SET_PROGRESS 5)")
  have t: "t = None"
    using d r
    by (simp add: dispatch_def s fixture_store_def fixture_volume_selector_def
          fixture_progress_selector_def selectors_volume_def selectors_progress_def
          shallowEqual_Number v split: prod.splits option.splits if_splits)
  note d' = d[unfolded t]
  have "handler_calls (entry_ref ?ev) evs = 0"
    using selector_handler_fires_once_per_change[OF reachable_fixture_store r _ d', of ?ev]
    by (simp add: es s v fixture_volume_selector_def)
  moreover have "handler_calls (entry_ref ?ep) evs = 1"
    using selector_handler_fires_once_per_change[OF reachable_fixture_store r _ d', of ?ep]
    by (simp add: es fixture_progress_selector_def selectors_progress_def shallowEqual_Number)
  ultimately show ?thesis
    using reachable_fixture_store r by (simp add: d t)
qed

text \<open>
  C9.  For every dispatch that changes the state and every set of registered subscribers
  (whose selectors return a value on the new state): whichever subscribers or selector
  handlers throw, every subscriber runs and every handler that is due runs, in
  registration order; the state after the dispatch is the reduced state; each exception is
  written to the console; and no exception reaches the caller of \<^verbatim>\<open>dispatch\<close>.
\<close>

theorem handler_isolation:
  assumes r: "reduce rnd (state st) a = New ns"
      and tot: "list_all (returns_value ns) (all_entries st)"
  shows "\<exists>st' evs. dispatch rnd st a = (st', evs, None) \<and> getState st' = ns \<and>
           listener_calls evs = map listener_ref (listeners st) \<and>
           handler_call_refs evs = map entry_ref (filter (due ns) (all_entries st)) \<and>
           console_errors evs =
             List.map_filter (\<lambda>l. listener_body l ns (state st) a) (listeners st) @
             List.map_filter (handler_outcome ns) (filter (due ns) (all_entries st))"
proof -
  have "\<exists>v. selector_body (selector e) ns = Inr v" if "e \<in> set (all_entries st)" for e
    using tot that by (cases "selector_body (selector e) ns") (auto simp: list_all_iff returns_value_def)
  then have "\<forall>e\<in>set (all_entries st). \<exists>v. selector_body (selector e) ns = Inr v" by blast
  with notify_selectors_total[of "selectorListeners st" ns]
  obtain g evsS where n: "notify_selectors ns (selectorListeners st) = (g, evsS, None)"
    by (auto simp: all_entries_def)
  show ?thesis
    using notify_selectors_refs[OF n] notify_selectors_errors[OF n] notify_selectors_no_listener[OF n]
    by (simp add: dispatch_New[OF r n] getState_def listener_calls_append handler_call_refs_append
          console_errors_append notify_listeners_calls notify_listeners_no_handler
          notify_listeners_errors all_entries_def)
qed

theorem handler_isolation_witness:
  "reduce fixture_rnd (state fixture_store) (SET_VOLUME 0.5) = New (fixture_state\<lparr>volume := 0.5\<rparr>) \<and>
   (\<exists>st' evs. dispatch fixture_rnd fixture_store (SET_VOLUME 0.5) = (st', evs, None) \<and>
      getState st' = fixture_state\<lparr>volume := 0.5\<rparr> \<and>
      listener_calls evs = [0, 1] \<and>
      handler_call_refs evs = [0] \<and>
      console_errors evs = [JsError ''subscriber failed'', JsError ''volume handler failed''])"
proof -
  let ?ns = "fixture_state\<lparr>volume := 0.5\<rparr>"
  have s: "state fixture_store = fixture_state" by (simp add: fixture_store_def)
  have p: "progress fixture_state = 0" and v: "volume fixture_state = 1"
    by (simp_all add: fixture_state_def createInitialState_def)
  have r: "reduce fixture_rnd (state fixture_store) (SET_VOLUME 0.5) = New ?ns"
    by (simp add: s)
  have tot: "list_all (returns_value ?ns) (all_entries fixture_store)"
    by (simp add: all_entries_def fixture_store_def returns_value_def fixture_volume_selector_def
          fixture_progress_selector_def selectors_volume_def selectors_progress_def)
  have l: "map listener_ref (listeners fixture_store) = [0, 1]"
    by (simp add: fixture_store_def fixture_listener0_def fixture_listener1_def)
  have f: "filter (due ?ns) (all_entries fixture_store) =
             [\<lparr>entry_ref = 0, selector = fixture_volume_selector,
               handler = fixture_volume_handler, lastValue = Number 1\<rparr>]"
    by (simp add: all_entries_def fixture_store_def due_def fixture_volume_selector_def
          fixture_progress_selector_def selectors_volume_def selectors_progress_def
          shallowEqual_Number p)
  have e: "List.map_filter (\<lambda>l. listener_body l ?ns (state fixture_store) (SET_VOLUME 0.5))
             (listeners fixture_store) = [JsError ''subscriber failed'']"
    by (simp add: fixture_store_def fixture_listener0_def fixture_listener1_def List.map_filter_def)
  have h: "List.map_filter (handler_outcome ?ns)
             [\<lparr>entry_ref = 0, selector = fixture_volume_selector,
               handler = fixture_volume_handler, lastValue = Number 1\<rparr>] =
           [JsError ''volume handler failed'']"
    by (simp add: List.map_filter_def handler_outcome_def fixture_volume_selector_def
          selectors_volume_def fixture_volume_handler_def)
  show ?thesis
    using handler_isolation[OF r tot] r
    unfolding l f e h by simp
qed

text \<open>
  C7, as the code has it.  Dispatching \<open>TOGGLE_SHUFFLE\<close> never changes the base queue.
  Dispatching it twice in succession restores the shuffle flag.  If shuffle was off at the
  start, the active ordering is then the original base queue again; if shuffle was on, the
  second toggle draws a fresh shuffle of the base queue, so the active ordering is a
  permutation of the base queue.
\<close>

theorem toggle_shuffle_round_trip:
  "queue (getState (fst (dispatch rnd1 st TOGGLE_SHUFFLE))) = queue (getState st) \<and>
   queue (getState (fst (dispatch rnd2 (fst (dispatch rnd1 st TOGGLE_SHUFFLE)) TOGGLE_SHUFFLE))) =
     queue (getState st) \<and>
   shuffle (getState (fst (dispatch rnd2 (fst (dispatch rnd1 st TOGGLE_SHUFFLE)) TOGGLE_SHUFFLE))) =
     shuffle (getState st) \<and>
   (\<not> shuffle (getState st) \<longrightarrow>
     activeQueue (getState (fst (dispatch rnd2 (fst (dispatch rnd1 st TOGGLE_SHUFFLE)) TOGGLE_SHUFFLE))) =
       queue (getState st)) \<and>
   (shuffle (getState st) \<longrightarrow>
     shuffledQueue (getState (fst (dispatch rnd2 (fst (dispatch rnd1 st TOGGLE_SHUFFLE)) TOGGLE_SHUFFLE))) =
       shuffleArray rnd2 (queue (getState st)) \<and>
     mset (activeQueue (getState (fst (dispatch rnd2 (fst (dispatch rnd1 st TOGGLE_SHUFFLE)) TOGGLE_SHUFFLE)))) =
       mset (queue (getState st)))"
proof -
  let ?st1 = "fst (dispatch rnd1 st TOGGLE_SHUFFLE)"
  let ?s = "getState st"
  have s1: "getState ?st1 = next_state rnd1 ?s TOGGLE_SHUFFLE"
    using state_after_dispatch[of rnd1 st TOGGLE_SHUFFLE] by (simp add: getState_def)
  have s2: "getState (fst (dispatch rnd2 ?st1 TOGGLE_SHUFFLE)) =
              next_state rnd2 (next_state rnd1 ?s TOGGLE_SHUFFLE) TOGGLE_SHUFFLE"
    using s1 state_after_dispatch[of rnd2 ?st1 TOGGLE_SHUFFLE] by (simp add: getState_def)
  show ?thesis
    unfolding s1 s2
    by (simp add: next_state_def activeQueue_def mset_shuffleArray)
qed

theorem toggle_shuffle_round_trip_witness:
  "\<not> shuffle (getState fixture_store) \<and>
   activeQueue (getState (fst (dispatch fixture_rnd
       (fst (dispatch fixture_rnd fixture_store TOGGLE_SHUFFLE)) TOGGLE_SHUFFLE))) =
     queue (getState fixture_store) \<and>
   shuffle (getState (new_Store (fixture_state\<lparr>queue := [fixture_trackA, fixture_trackB],
       shuffle := True, shuffledQueue := [fixture_trackA, fixture_trackB]\<rparr>))) \<and>
   mset (activeQueue (getState (fst (dispatch fixture_rnd
       (fst (dispatch fixture_rnd
          (new_Store (fixture_state\<lparr>queue := [fixture_trackA, fixture_trackB],
             shuffle := True, shuffledQueue := [fixture_trackA, fixture_trackB]\<rparr>))
          TOGGLE_SHUFFLE)) TOGGLE_SHUFFLE)))) =
     mset [fixture_trackA, fixture_trackB]"
proof -
  have a: "\<not> shuffle (getState fixture_store)"
    by (simp add: getState_def fixture_store_def fixture_state_def createInitialState_def)
  have b: "getState (new_Store s) = s" for s by (simp add: getState_def new_Store_def)
  show ?thesis
    using a toggle_shuffle_round_trip[of fixture_rnd fixture_store fixture_rnd]
      toggle_shuffle_round_trip[of fixture_rnd
        "new_Store (fixture_state\<lparr>queue := [fixture_trackA, fixture_trackB],
             shuffle := True, shuffledQueue := [fixture_trackA, fixture_trackB]\<rparr>)" fixture_rnd]
    by (simp add: b)
qed

text \<open>C7 as stated fails when shuffle is on at the start: with base queue [A, B],
  shuffle on and active ordering [A, B], two toggles with \<^verbatim>\<open>Math.random()\<close> returning 0
  leave the active ordering [B, A].\<close>

theorem toggle_shuffle_twice_counterexample:
  "shuffle (getState (fst (dispatch fixture_rnd
       (fst (dispatch fixture_rnd
          (new_Store (fixture_state\<lparr>queue := [fixture_trackA, fixture_trackB],
             shuffle := True, shuffledQueue := [fixture_trackA, fixture_trackB]\<rparr>))
          TOGGLE_SHUFFLE)) TOGGLE_SHUFFLE))) = True \<and>
   activeQueue (getState (fst (dispatch fixture_rnd
       (fst (dispatch fixture_rnd
          (new_Store (fixture_state\<lparr>queue := [fixture_trackA, fixture_trackB],
             shuffle := True, shuffledQueue := [fixture_trackA, fixture_trackB]\<rparr>))
          TOGGLE_SHUFFLE)) TOGGLE_SHUFFLE))) = [fixture_trackB, fixture_trackA] \<and>
   [fixture_trackB, fixture_trackA] \<noteq>
     queue (getState (new_Store (fixture_state\<lparr>queue := [fixture_trackA, fixture_trackB],
             shuffle := True, shuffledQueue := [fixture_trackA, fixture_trackB]\<rparr>)))"
proof -
  let ?s0 = "fixture_state\<lparr>queue := [fixture_trackA, fixture_trackB],
             shuffle := True, shuffledQueue := [fixture_trackA, fixture_trackB]\<rparr>"
  let ?st1 = "fst (dispatch fixture_rnd (new_Store ?s0) TOGGLE_SHUFFLE)"
  have b: "getState (new_Store s) = s" for s by (simp add: getState_def new_Store_def)
  have s1: "getState ?st1 = next_state fixture_rnd ?s0 TOGGLE_SHUFFLE"
    using state_after_dispatch[of fixture_rnd "new_Store ?s0" TOGGLE_SHUFFLE] by (simp add: new_Store_def)
  have s2: "getState (fst (dispatch fixture_rnd ?st1 TOGGLE_SHUFFLE)) =
              next_state fixture_rnd (next_state fixture_rnd ?s0 TOGGLE_SHUFFLE) TOGGLE_SHUFFLE"
    using s1 state_after_dispatch[of fixture_rnd ?st1 TOGGLE_SHUFFLE] by (simp add: getState_def)
  have sh: "shuffleArray fixture_rnd [fixture_trackA, fixture_trackB] = [fixture_trackB, fixture_trackA]"
    by (simp add: shuffleArray_def swap_entries_def fixture_rnd_def)
  have ne: "fixture_trackB \<noteq> fixture_trackA"
    by (simp add: fixture_trackA_def fixture_trackB_def)
  show ?thesis
    unfolding s2 b
    using ne by (simp add: next_state_def activeQueue_def sh)
qed

section \<open>Properties of the engine\<close>

lemma apply_volume_sync_fields [simp]:
  "src (apply_volume_sync h evs el) = src el"
  "currentTime (apply_volume_sync h evs el) = currentTime el"
  "el_duration (apply_volume_sync h evs el) = el_duration el"
  "element_id (apply_volume_sync h evs el) = element_id el"
  "paused (apply_volume_sync h evs el) = paused el"
  by (induction h evs el rule: apply_volume_sync.induct) simp_all

lemma state_player_dispatch [simp]:
  "getState (the_store (player_dispatch env a p)) = next_state (random env) (getState (the_store p)) a"
  using state_after_dispatch[of "random env" "the_store p" a]
  by (cases "dispatch (random env) (the_store p) a") (simp add: player_dispatch_def getState_def)

lemma player_dispatch_fields [simp]:
  "secondary (player_dispatch env a p) = secondary p"
  "progressTimer (player_dispatch env a p) = progressTimer p"
  "boundHandlers (player_dispatch env a p) = boundHandlers p"
  "scheduledTick (player_dispatch env a p) = scheduledTick p"
  "volumeHandler (player_dispatch env a p) = volumeHandler p"
  "load_answers (player_dispatch env a p) = load_answers p"
  "play_answers (player_dispatch env a p) = play_answers p"
  "src (primary (player_dispatch env a p)) = src (primary p)"
  "currentTime (primary (player_dispatch env a p)) = currentTime (primary p)"
  "el_duration (primary (player_dispatch env a p)) = el_duration (primary p)"
  "element_id (primary (player_dispatch env a p)) = element_id (primary p)"
  "paused (primary (player_dispatch env a p)) = paused (primary p)"
  by (simp_all add: player_dispatch_def split: prod.splits)

lemma next_state_simps [simp]:
  "next_state rnd s (SET_QUEUE_INDEX i) = s\<lparr>queueIndex := i\<rparr>"
  "next_state rnd s (SET_PLAYER_STATE ps) = s\<lparr>playerState := ps\<rparr>"
  "next_state rnd s (SET_DURATION d) = s\<lparr>duration := d\<rparr>"
  "next_state rnd s (SET_CROSSFADING b) = s\<lparr>isCrossfading := b\<rparr>"
  "next_state rnd s (SET_ERROR e) = s\<lparr>error := e, isLoading := False, isSearching := False\<rparr>"
  "next_state rnd s (SET_QUEUE q (Some j)) =
     s\<lparr>queue := q, queueIndex := j, shuffledQueue := (if shuffle s then shuffleArray rnd q else [])\<rparr>"
  by (simp_all add: next_state_def)



lemma next_state_SET_PROGRESS_fields [simp]:
  "currentTrack (next_state rnd s (SET_PROGRESS x)) = currentTrack s"
  "playerState (next_state rnd s (SET_PROGRESS x)) = playerState s"
  "duration (next_state rnd s (SET_PROGRESS x)) = duration s"
  "volume (next_state rnd s (SET_PROGRESS x)) = volume s"
  "queue (next_state rnd s (SET_PROGRESS x)) = queue s"
  "queueIndex (next_state rnd s (SET_PROGRESS x)) = queueIndex s"
  "repeatMode (next_state rnd s (SET_PROGRESS x)) = repeatMode s"
  "shuffle (next_state rnd s (SET_PROGRESS x)) = shuffle s"
  "shuffledQueue (next_state rnd s (SET_PROGRESS x)) = shuffledQueue s"
  "isCrossfading (next_state rnd s (SET_PROGRESS x)) = isCrossfading s"
  "error (next_state rnd s (SET_PROGRESS x)) = error s"
  by (simp_all add: next_state_def)

lemma next_state_SET_CURRENT_TRACK_fields [simp]:
  "playerState (next_state rnd s (SET_CURRENT_TRACK t)) = playerState s"
  "progress (next_state rnd s (SET_CURRENT_TRACK t)) = progress s"
  "duration (next_state rnd s (SET_CURRENT_TRACK t)) = duration s"
  "volume (next_state rnd s (SET_CURRENT_TRACK t)) = volume s"
  "queue (next_state rnd s (SET_CURRENT_TRACK t)) = queue s"
  "queueIndex (next_state rnd s (SET_CURRENT_TRACK t)) = queueIndex s"
  "repeatMode (next_state rnd s (SET_CURRENT_TRACK t)) = repeatMode s"
  "shuffle (next_state rnd s (SET_CURRENT_TRACK t)) = shuffle s"
  "shuffledQueue (next_state rnd s (SET_CURRENT_TRACK t)) = shuffledQueue s"
  "isCrossfading (next_state rnd s (SET_CURRENT_TRACK t)) = isCrossfading s"
  "error (next_state rnd s (SET_CURRENT_TRACK t)) = error s"
  by (simp_all add: next_state_def)

lemma currentTrack_id_SET_CURRENT_TRACK [simp]:
  "map_option track_id (currentTrack (next_state rnd s (SET_CURRENT_TRACK t))) = Some (track_id t)"
  by (cases "currentTrack s") (auto simp: next_state_def)

lemma activeQueue_next_state [simp]:
  "activeQueue (next_state rnd s (SET_PROGRESS x)) = activeQueue s"
  "activeQueue (next_state rnd s (SET_CURRENT_TRACK t)) = activeQueue s"
  "activeQueue (s\<lparr>queueIndex := i\<rparr>) = activeQueue s"
  "activeQueue (s\<lparr>playerState := ps\<rparr>) = activeQueue s"
  by (simp_all add: activeQueue_def)

lemma slice_take: "- 1 \<le> i \<Longrightarrow> slice q 0 (i + 1) = take (nat (i + 1)) q"
  by (simp add: slice_def relative_index_def min_def)

lemma slice_from_drop: "- 1 \<le> i \<Longrightarrow> slice_from q (i + 1) = drop (nat (i + 1)) q"
  by (simp add: slice_from_def relative_index_def min_def)

text \<open>
  C10.  For every state with base queue \<open>q\<close> and queue index \<open>i\<close>, \<^verbatim>\<open>addToQueueNext(t)\<close>
  leaves a state whose base queue is \<^verbatim>\<open>q.slice(0, i + 1)\<close>, then \<open>t\<close>, then \<^verbatim>\<open>q.slice(i + 1)\<close>,
  whose queue index is still \<open>i\<close> and whose current track is unchanged.  When \<open>i\<close> is a
  position of the queue or \<open>-1\<close>, the two slices are the first \<open>i + 1\<close> tracks of \<open>q\<close> and the
  rest of \<open>q\<close>: the track is inserted immediately after the current position.
\<close>

theorem addToQueueNext_inserts_after_current:
  "queue (getState (the_store (addToQueueNext env t p))) =
     slice (queue (getState (the_store p))) 0 (queueIndex (getState (the_store p)) + 1) @
     t # slice_from (queue (getState (the_store p))) (queueIndex (getState (the_store p)) + 1) \<and>
   (- 1 \<le> queueIndex (getState (the_store p)) \<longrightarrow>
      slice (queue (getState (the_store p))) 0 (queueIndex (getState (the_store p)) + 1) =
        take (nat (queueIndex (getState (the_store p)) + 1)) (queue (getState (the_store p))) \<and>
      slice_from (queue (getState (the_store p))) (queueIndex (getState (the_store p)) + 1) =
        drop (nat (queueIndex (getState (the_store p)) + 1)) (queue (getState (the_store p)))) \<and>
   queueIndex (getState (the_store (addToQueueNext env t p))) = queueIndex (getState (the_store p)) \<and>
   currentTrack (getState (the_store (addToQueueNext env t p))) = currentTrack (getState (the_store p))"
  by (simp add: addToQueueNext_def Let_def haptic_def slice_take slice_from_drop)

lemma sleeps_append: "sleeps (xs @ ys) = sleeps xs @ sleeps ys"
  by (induction xs rule: sleeps.induct) auto

lemma sleeps_notify_listeners: "sleeps (notify_listeners ls ns ps a) = []"
  by (induction ls) (auto split: option.splits simp: sleeps_append)

lemma sleeps_notify_entries: "notify_entries ns es = (es', evs, t) \<Longrightarrow> sleeps evs = []"
  by (induction es arbitrary: es' evs t)
     (auto split: sum.splits if_splits prod.splits option.splits simp: sleeps_append)

lemma sleeps_notify_selectors: "notify_selectors ns groups = (groups', evs, t) \<Longrightarrow> sleeps evs = []"
proof (induction groups arbitrary: groups' evs t)
  case Nil then show ?case by simp
next
  case (Cons g groups)
  obtain k es where g: "g = (k, es)" by (cases g)
  obtain es1 evs1 t1 where n1: "notify_entries ns es = (es1, evs1, t1)" by (cases "notify_entries ns es")
  obtain g2 evs2 t2 where n2: "notify_selectors ns groups = (g2, evs2, t2)" by (cases "notify_selectors ns groups")
  show ?case using Cons.prems g n1 n2 sleeps_notify_entries[OF n1] Cons.IH[OF n2]
    by (cases t1) (auto simp: sleeps_append)
qed

lemma sleeps_dispatch: "dispatch rnd st a = (st', evs, t) \<Longrightarrow> sleeps evs = []"
proof (cases "reduce rnd (state st) a")
  case Same
  then show "dispatch rnd st a = (st', evs, t) \<Longrightarrow> sleeps evs = []" by (simp add: dispatch_Same)
next
  case (New ns)
  obtain g evsS t' where n: "notify_selectors ns (selectorListeners st) = (g, evsS, t')"
    by (cases "notify_selectors ns (selectorListeners st)")
  show "dispatch rnd st a = (st', evs, t) \<Longrightarrow> sleeps evs = []"
    using dispatch_New[OF New n] sleeps_notify_selectors[OF n]
    by (cases t') (auto simp: sleeps_append sleeps_notify_listeners)
qed

lemma sleeps_player_dispatch [simp]: "sleeps (trace (player_dispatch env a p)) = sleeps (trace p)"
  by (cases "dispatch (random env) (the_store p) a")
     (auto simp: player_dispatch_def sleeps_append dest: sleeps_dispatch)

lemma retryCount_seek [simp]: "retryCount (seek env x p) = retryCount p"
  by (simp add: seek_def haptic_def split: option.splits)

lemma seek_state:
  "getState (the_store (seek env x p)) =
     (case el_duration (primary p) of None \<Rightarrow> getState (the_store p)
      | Some d \<Rightarrow> next_state (random env) (getState (the_store p)) (SET_PROGRESS (clamp x 0 d)))"
  by (simp add: seek_def haptic_def split: option.splits)

lemma seek_fields [simp]:
  "src (primary (seek env x p)) = src (primary p)"
  "play_answers (seek env x p) = play_answers p"
  "load_answers (seek env x p) = load_answers p"
  "scheduledTick (seek env x p) = scheduledTick p"
  "el_duration (primary (seek env x p)) = el_duration (primary p)"
  by (simp_all add: seek_def haptic_def split: option.splits)

lemma seek_queueIndex [simp]:
  "queueIndex (getState (the_store (seek env x p))) = queueIndex (getState (the_store p))"
  "currentTrack (getState (the_store (seek env x p))) = currentTrack (getState (the_store p))"
  by (simp_all add: seek_state split: option.splits del: next_state_simps)

lemma resume_queueIndex [simp]:
  "queueIndex (getState (the_store (resume env p))) = queueIndex (getState (the_store p))"
  "currentTrack (getState (the_store (resume env p))) = currentTrack (getState (the_store p))"
  "currentTime (primary (resume env p)) = currentTime (primary p)"
  by (simp_all add: resume_def haptic_def startProgressTimer_def stopProgressTimer_def console_error_def
        split: list.splits play_answer.splits)

lemma resume_started:
  "src (primary p) \<noteq> [] \<Longrightarrow> play_answers p = Started # rest \<Longrightarrow>
     playerState (getState (the_store (resume env p))) = PLAYING \<and> \<not> paused (primary (resume env p))"
  by (simp add: resume_def haptic_def startProgressTimer_def stopProgressTimer_def)

lemma play_prologue_fields [simp]:
  "load_answers (play_prologue env t q i p) = load_answers p"
  "play_answers (play_prologue env t q i p) = play_answers p"
  "scheduledTick (play_prologue env t q i p) = scheduledTick p"
  "secondary (play_prologue env t q i p) = secondary p"
  by (simp_all add: play_prologue_def haptic_def split: option.splits)

lemma loadAudio_started:
  assumes l: "load_answers p = CanPlay w d # rest" and s: "play_answers p = Started # rest'"
  shows "\<exists>p'. loadAudio env url p = (Fulfilled, p') \<and>
           playerState (getState (the_store p')) = PLAYING \<and>
           queueIndex (getState (the_store p')) = queueIndex (getState (the_store p)) \<and>
           currentTrack (getState (the_store p')) = currentTrack (getState (the_store p)) \<and>
           isCrossfading (getState (the_store p')) = isCrossfading (getState (the_store p)) \<and>
           scheduledTick p' = scheduledTick p \<and> secondary p' = secondary p \<and>
           retryCount p' = 0 \<and> \<not> paused (primary p') \<and> src (primary p') = url"
  using l s
  by (cases w)
     (simp_all add: loadAudio_def Let_def attachPrimaryListeners_def detachPrimaryListeners_def
        startProgressTimer_def stopProgressTimer_def)

lemma play_starts:
  assumes "load_starts env t p"
  shows "playerState (getState (the_store (play env (Some t) q i p))) = PLAYING \<and>
     map_option track_id (currentTrack (getState (the_store (play env (Some t) q i p)))) = Some (track_id t) \<and>
     queueIndex (getState (the_store (play env (Some t) q i p))) =
       (case q of None \<Rightarrow> queueIndex (getState (the_store p)) | Some qu \<Rightarrow> i) \<and>
     isCrossfading (getState (the_store (play env (Some t) q i p))) = isCrossfading (getState (the_store p)) \<and>
     scheduledTick (play env (Some t) q i p) = scheduledTick p \<and>
     secondary (play env (Some t) q i p) = secondary p \<and>
     retryCount (play env (Some t) q i p) = 0 \<and>
     \<not> paused (primary (play env (Some t) q i p)) \<and>
     Some (src (primary (play env (Some t) q i p))) = getTrackStreamUrl env t"
proof -
  let ?p0 = "play_prologue env t q i p"
  from assms obtain url w d rest rest' where u: "getTrackStreamUrl env t = Some url"
    and l: "load_answers p = CanPlay w d # rest" and s: "play_answers p = Started # rest'"
    by (auto simp: load_starts_def split: option.splits list.splits load_answer.splits play_answer.splits)
  have l0: "load_answers ?p0 = CanPlay w d # rest" and s0: "play_answers ?p0 = Started # rest'"
    using l s by simp_all
  from loadAudio_started[OF l0 s0, of env url] obtain p' where
    la: "loadAudio env url ?p0 = (Fulfilled, p')" and
    f: "playerState (getState (the_store p')) = PLAYING"
       "queueIndex (getState (the_store p')) = queueIndex (getState (the_store ?p0))"
       "currentTrack (getState (the_store p')) = currentTrack (getState (the_store ?p0))"
       "isCrossfading (getState (the_store p')) = isCrossfading (getState (the_store ?p0))"
       "scheduledTick p' = scheduledTick ?p0" "secondary p' = secondary ?p0"
       "retryCount p' = 0" "\<not> paused (primary p')" "src (primary p') = url"
    by blast
  have pl: "play env (Some t) q i p = logPlayEvent t p'"
    by (simp add: play.simps try_load_def u la)
  have pro: "queueIndex (getState (the_store ?p0)) =
              (case q of None \<Rightarrow> queueIndex (getState (the_store p)) | Some qu \<Rightarrow> i)"
       "map_option track_id (currentTrack (getState (the_store ?p0))) = Some (track_id t)"
       "isCrossfading (getState (the_store ?p0)) = isCrossfading (getState (the_store p))"
    by (simp_all add: play_prologue_def haptic_def split: option.splits)
  show ?thesis
    unfolding pl using f pro by (simp add: logPlayEvent_def u)
qed

lemma load_starts_cong [simp]:
  "load_starts env t (player_dispatch env' a p) = load_starts env t p"
  "load_starts env t (haptic ty p) = load_starts env t p"
  "load_starts env t (stopProgressTimer p) = load_starts env t p"
  by (simp_all add: load_starts_def haptic_def stopProgressTimer_def
        cong: list.case_cong option.case_cong load_answer.case_cong)

lemma haptic_fields [simp]:
  "the_store (haptic ty p) = the_store p"
  "primary (haptic ty p) = primary p"
  "secondary (haptic ty p) = secondary p"
  "scheduledTick (haptic ty p) = scheduledTick p"
  "play_answers (haptic ty p) = play_answers p"
  "load_answers (haptic ty p) = load_answers p"
  "retryCount (haptic ty p) = retryCount p"
  by (simp_all add: haptic_def)

lemma stopProgressTimer_fields [simp]:
  "the_store (stopProgressTimer p) = the_store p"
  "primary (stopProgressTimer p) = primary p"
  "secondary (stopProgressTimer p) = secondary p"
  "scheduledTick (stopProgressTimer p) = scheduledTick p"
  "play_answers (stopProgressTimer p) = play_answers p"
  "load_answers (stopProgressTimer p) = load_answers p"
  "retryCount (stopProgressTimer p) = retryCount p"
  by (simp_all add: stopProgressTimer_def)

lemma crossfadeTo_begins:
  assumes u: "getTrackStreamUrl env t = Some url" and a: "play_answers p = ans # rest"
  shows "\<exists>p3. crossfadeTo env (Some t) p = (Fulfilled, p3) \<and>
           isCrossfading (getState (the_store p3)) \<and>
           queueIndex (getState (the_store p3)) = queueIndex (getState (the_store p)) \<and>
           currentTrack (getState (the_store p3)) = currentTrack (getState (the_store p)) \<and>
           scheduledTick p3 =
             Some \<lparr>startTime = Date_now env,
                   primaryStartVol = el_volume (primary (player_dispatch env (SET_CROSSFADING True) p)),
                   targetVol = volume (getState (the_store p)), nextTrack = t\<rparr> \<and>
           src (secondary p3) = url \<and> el_volume (secondary p3) = 0 \<and>
           element_id (secondary p3) = element_id (secondary p) \<and>
           element_id (primary p3) = element_id (primary p) \<and>
           src (primary p3) = src (primary p) \<and>
           paused (primary p3) = paused (primary p)"
  using u a by (simp add: crossfadeTo_def Let_def requestAnimationFrame_def)

lemma onEnded_crossfade:
  assumes r: "repeatMode (getState (the_store p)) \<noteq> REPEAT_ONE"
      and lo: "- 1 \<le> queueIndex (getState (the_store p))"
      and hi: "queueIndex (getState (the_store p)) + 1 < int (length (activeQueue (getState (the_store p))))"
      and u: "getTrackStreamUrl env (activeQueue (getState (the_store p)) ! nat (queueIndex (getState (the_store p)) + 1)) = Some url"
      and a: "play_answers p = ans # rest"
  shows "queueIndex (getState (the_store (onEnded env p))) = queueIndex (getState (the_store p)) + 1 \<and>
         map_option track_id (currentTrack (getState (the_store (onEnded env p)))) =
           Some (track_id (activeQueue (getState (the_store p)) ! nat (queueIndex (getState (the_store p)) + 1))) \<and>
         isCrossfading (getState (the_store (onEnded env p))) \<and>
         (\<exists>job. scheduledTick (onEnded env p) = Some job \<and>
                nextTrack job = activeQueue (getState (the_store p)) ! nat (queueIndex (getState (the_store p)) + 1) \<and>
                startTime job = Date_now env) \<and>
         src (secondary (onEnded env p)) = url \<and>
         el_volume (secondary (onEnded env p)) = 0 \<and>
         element_id (secondary (onEnded env p)) = element_id (secondary p) \<and>
         element_id (primary (onEnded env p)) = element_id (primary p) \<and>
         src (primary (onEnded env p)) = src (primary p) \<and>
         paused (primary (onEnded env p)) = paused (primary p)"
proof -
  let ?s = "getState (the_store p)"
  let ?i = "queueIndex ?s"
  let ?t = "activeQueue ?s ! nat (?i + 1)"
  let ?p2 = "player_dispatch env (SET_QUEUE_INDEX (?i + 1)) (stopProgressTimer p)"
  have ix: "index_opt (activeQueue ?s) (?i + 1) = Some ?t" using lo hi by (simp add: index_opt_def)
  have a2: "play_answers ?p2 = ans # rest" using a by simp
  from crossfadeTo_begins[OF u a2] obtain p3 where
    c: "crossfadeTo env (Some ?t) ?p2 = (Fulfilled, p3)" and
    f: "isCrossfading (getState (the_store p3))"
       "queueIndex (getState (the_store p3)) = queueIndex (getState (the_store ?p2))"
       "\<exists>job. scheduledTick p3 = Some job \<and> nextTrack job = ?t \<and> startTime job = Date_now env"
       "src (secondary p3) = url" "el_volume (secondary p3) = 0"
       "element_id (secondary p3) = element_id (secondary ?p2)"
       "element_id (primary p3) = element_id (primary ?p2)"
       "src (primary p3) = src (primary ?p2)"
       "paused (primary p3) = paused (primary ?p2)"
    by auto
  have e: "onEnded env p = player_dispatch env (SET_CURRENT_TRACK ?t) p3"
    using r hi by (simp add: onEnded_def Let_def ix c)
  show ?thesis using f by (simp add: e)
qed



lemma sleeps_trace [simp]:
  "sleeps (trace (haptic ty p)) = sleeps (trace p)"
  "sleeps (trace (console_error m e p)) = sleeps (trace p)"
  "sleeps (trace (logPlayEvent t p)) = sleeps (trace p)"
  "sleeps (trace (sleep ms p)) = sleeps (trace p) @ [ms]"
  "sleeps (trace (stopProgressTimer p)) = sleeps (trace p)"
  "sleeps (trace (detachPrimaryListeners p)) = sleeps (trace p)"
  by (simp_all add: haptic_def console_error_def logPlayEvent_def sleep_def stopProgressTimer_def
        detachPrimaryListeners_def sleeps_append)

lemma loadAudio_rejected:
  assumes "(\<exists>w rest. load_answers p = LoadError w # rest) \<or>
           (\<exists>w d rest m rest'. load_answers p = CanPlay w d # rest \<and> play_answers p = PlayRejected m # rest')"
  shows "\<exists>e p'. loadAudio env url p = (Rejected e, p') \<and> retryCount p' = retryCount p \<and>
           sleeps (trace p') = sleeps (trace p) \<and> load_answers p' = tl (load_answers p)"
  using assms
proof (elim disjE exE conjE)
  fix w rest assume "load_answers p = LoadError w # rest"
  then show ?thesis
    by (cases w) (simp_all add: loadAudio_def Let_def detachPrimaryListeners_def)
next
  fix w d rest m rest'
  assume "load_answers p = CanPlay w d # rest" "play_answers p = PlayRejected m # rest'"
  then show ?thesis
    by (cases w) (simp_all add: loadAudio_def Let_def detachPrimaryListeners_def)
qed

lemma try_load_fails:
  assumes "load_fails env t p"
  shows "\<exists>e p'. try_load env t p = (Rejected e, p') \<and> retryCount p' = retryCount p \<and>
           sleeps (trace p') = sleeps (trace p) \<and> length (load_answers p) \<le> length (load_answers p') + 1"
proof (cases "getTrackStreamUrl env t")
  case None
  then show ?thesis by (simp add: try_load_def)
next
  case (Some url)
  with assms have "(\<exists>w rest. load_answers p = LoadError w # rest) \<or>
           (\<exists>w d rest m rest'. load_answers p = CanPlay w d # rest \<and> play_answers p = PlayRejected m # rest')"
    by (auto simp: load_fails_def split: list.splits load_answer.splits play_answer.splits)
  from loadAudio_rejected[OF this, of env url] obtain e p' where
    "loadAudio env url p = (Rejected e, p')" "retryCount p' = retryCount p"
    "sleeps (trace p') = sleeps (trace p)" "load_answers p' = tl (load_answers p)" by blast
  then show ?thesis by (simp add: try_load_def Some)
qed

lemma load_fails_prologue [simp]: "load_fails env t (play_prologue env t' q i p) = load_fails env t p"
  by (simp add: load_fails_def cong: list.case_cong option.case_cong load_answer.case_cong)

lemma sleeps_play_prologue [simp]: "sleeps (trace (play_prologue env t q i p)) = sleeps (trace p)"
  by (simp add: play_prologue_def split: option.splits)

lemma play_failed_state [simp]:
  "playerState (getState (the_store (play_failed env e p))) = ERROR"
  "error (getState (the_store (play_failed env e p))) = Some (ERROR_MSG_PLAYBACK env)"
  "sleeps (trace (play_failed env e p)) = sleeps (trace p)"
  "load_answers (play_failed env e p) = load_answers p"
  by (simp_all add: play_failed_def console_error_def sleeps_append)

text \<open>
  C8, as the code has it.  A load failure during \<^verbatim>\<open>play()\<close> with the retry counter below the
  ceiling sets the state to \<open>ERROR\<close>, increments the counter, waits the fixed delay and calls
  \<^verbatim>\<open>next()\<close>.  With the counter at the ceiling the engine stays in \<open>ERROR\<close>: the counter is
  left as it is, nothing is waited for and no further load is attempted.  A load after
  which playback starts resets the counter to zero.
\<close>

theorem play_retry_policy:
  "let p' = play env (Some t) q i p
   in (load_fails env t p \<and> retryCount p < MAX_RETRIES env \<longrightarrow>
         (\<exists>p1. p' = next_track env p1 \<and>
               retryCount p1 = retryCount p + 1 \<and>
               playerState (getState (the_store p1)) = ERROR \<and>
               error (getState (the_store p1)) = Some (ERROR_MSG_PLAYBACK env) \<and>
               sleeps (trace p1) = sleeps (trace p) @ [RETRY_DELAY_MS env])) \<and>
      (load_fails env t p \<and> \<not> retryCount p < MAX_RETRIES env \<longrightarrow>
         playerState (getState (the_store p')) = ERROR \<and>
         error (getState (the_store p')) = Some (ERROR_MSG_PLAYBACK env) \<and>
         retryCount p' = retryCount p \<and>
         sleeps (trace p') = sleeps (trace p) \<and>
         length (load_answers p) \<le> length (load_answers p') + 1) \<and>
      (load_starts env t p \<longrightarrow> retryCount p' = 0)"
proof -
  let ?p0 = "play_prologue env t q i p"
  have fails: "\<exists>e p2. try_load env t ?p0 = (Rejected e, p2) \<and> retryCount p2 = retryCount p \<and>
           sleeps (trace p2) = sleeps (trace p) \<and> length (load_answers p) \<le> length (load_answers p2) + 1"
    if "load_fails env t p"
    using try_load_fails[of env t ?p0] that by simp
  have below: "\<exists>p1. play env (Some t) q i p = next_track env p1 \<and>
               retryCount p1 = retryCount p + 1 \<and>
               playerState (getState (the_store p1)) = ERROR \<and>
               error (getState (the_store p1)) = Some (ERROR_MSG_PLAYBACK env) \<and>
               sleeps (trace p1) = sleeps (trace p) @ [RETRY_DELAY_MS env]"
    if f: "load_fails env t p" and b: "retryCount p < MAX_RETRIES env"
  proof -
    from fails[OF f] obtain e p2 where t: "try_load env t ?p0 = (Rejected e, p2)"
      and k: "retryCount p2 = retryCount p" "sleeps (trace p2) = sleeps (trace p)" by blast
    let ?p1 = "sleep (RETRY_DELAY_MS env) ((play_failed env e p2)\<lparr>retryCount := retryCount (play_failed env e p2) + 1\<rparr>)"
    have "play env (Some t) q i p = next_track env ?p1"
      using b k by (simp add: play.simps t)
    moreover have "retryCount ?p1 = retryCount p + 1" using k by (simp add: sleep_def)
    moreover have "playerState (getState (the_store ?p1)) = ERROR"
      "error (getState (the_store ?p1)) = Some (ERROR_MSG_PLAYBACK env)"
      using play_failed_state(1,2)[of env e p2] by (simp_all add: sleep_def)
    moreover have "sleeps (trace ?p1) = sleeps (trace p) @ [RETRY_DELAY_MS env]"
      using k play_failed_state(3)[of env e p2] by (simp add: sleep_def sleeps_append)
    ultimately show ?thesis by blast
  qed
  have ceiling: "playerState (getState (the_store (play env (Some t) q i p))) = ERROR \<and>
         error (getState (the_store (play env (Some t) q i p))) = Some (ERROR_MSG_PLAYBACK env) \<and>
         retryCount (play env (Some t) q i p) = retryCount p \<and>
         sleeps (trace (play env (Some t) q i p)) = sleeps (trace p) \<and>
         length (load_answers p) \<le> length (load_answers (play env (Some t) q i p)) + 1"
    if f: "load_fails env t p" and b: "\<not> retryCount p < MAX_RETRIES env"
  proof -
    from fails[OF f] obtain e p2 where t: "try_load env t ?p0 = (Rejected e, p2)"
      and k: "retryCount p2 = retryCount p" "sleeps (trace p2) = sleeps (trace p)"
         "length (load_answers p) \<le> length (load_answers p2) + 1" by blast
    have "play env (Some t) q i p = play_failed env e p2"
      using b k by (simp add: play.simps t)
    then show ?thesis using k by simp
  qed
  have ok: "load_starts env t p \<Longrightarrow> retryCount (play env (Some t) q i p) = 0"
    using play_starts[of env t p q i] by blast
  show ?thesis
    unfolding Let_def using below ceiling ok by blast
qed

lemma platform_calls_append: "platform_calls (xs @ ys) = platform_calls xs @ platform_calls ys"
  by (induction xs rule: platform_calls.induct) auto

lemma platform_calls_notify_listeners: "platform_calls (notify_listeners ls ns ps a) = []"
  by (induction ls) (auto split: option.splits simp: platform_calls_append)

lemma platform_calls_notify_entries: "notify_entries ns es = (es', evs, t) \<Longrightarrow> platform_calls evs = []"
  by (induction es arbitrary: es' evs t)
     (auto split: sum.splits if_splits prod.splits option.splits simp: platform_calls_append)

lemma platform_calls_notify_selectors:
  "notify_selectors ns groups = (groups', evs, t) \<Longrightarrow> platform_calls evs = []"
proof (induction groups arbitrary: groups' evs t)
  case Nil then show ?case by simp
next
  case (Cons g groups)
  obtain k es where g: "g = (k, es)" by (cases g)
  obtain es1 evs1 t1 where n1: "notify_entries ns es = (es1, evs1, t1)" by (cases "notify_entries ns es")
  obtain g2 evs2 t2 where n2: "notify_selectors ns groups = (g2, evs2, t2)" by (cases "notify_selectors ns groups")
  show ?case using Cons.prems g n1 n2 platform_calls_notify_entries[OF n1] Cons.IH[OF n2]
    by (cases t1) (auto simp: platform_calls_append)
qed

lemma platform_calls_dispatch: "dispatch rnd st a = (st', evs, t) \<Longrightarrow> platform_calls evs = []"
proof (cases "reduce rnd (state st) a")
  case Same
  then show "dispatch rnd st a = (st', evs, t) \<Longrightarrow> platform_calls evs = []" by (simp add: dispatch_Same)
next
  case (New ns)
  obtain g evsS t' where n: "notify_selectors ns (selectorListeners st) = (g, evsS, t')"
    by (cases "notify_selectors ns (selectorListeners st)")
  show "dispatch rnd st a = (st', evs, t) \<Longrightarrow> platform_calls evs = []"
    using dispatch_New[OF New n] platform_calls_notify_selectors[OF n]
    by (cases t') (auto simp: platform_calls_append platform_calls_notify_listeners)
qed

lemma platform_calls_player_dispatch [simp]:
  "platform_calls (trace (player_dispatch env a p)) = platform_calls (trace p)"
  by (cases "dispatch (random env) (the_store p) a")
     (auto simp: player_dispatch_def platform_calls_append dest: platform_calls_dispatch)

lemma platform_calls_trace [simp]:
  "platform_calls (trace (haptic ty p)) = platform_calls (trace p) @ [Haptic ty]"
  "platform_calls (trace (console_error m e p)) = platform_calls (trace p)"
  "platform_calls (trace (logPlayEvent t p)) = platform_calls (trace p) @ [LogPlayEvent t]"
  "platform_calls (trace (sleep ms p)) = platform_calls (trace p) @ [Slept ms]"
  "platform_calls (trace (requestAnimationFrame job p)) = platform_calls (trace p) @ [AnimationFrameRequested]"
  "platform_calls (trace (stopProgressTimer p)) = platform_calls (trace p)"
  "platform_calls (trace (detachPrimaryListeners p)) = platform_calls (trace p)"
  by (simp_all add: haptic_def console_error_def logPlayEvent_def sleep_def stopProgressTimer_def
        detachPrimaryListeners_def requestAnimationFrame_def platform_calls_append)







lemma play_prologue_more [simp]:
  "getState (the_store (play_prologue env t None i p)) =
     (next_state (random env) (getState (the_store p)) (SET_CURRENT_TRACK t))\<lparr>playerState := LOADING\<rparr>"
  "element_id (primary (play_prologue env t q i p)) = element_id (primary p)"
  "src (primary (play_prologue env t q i p)) = src (primary p)"
  "progressTimer (play_prologue env t q i p) = progressTimer p"
  "platform_calls (trace (play_prologue env t q i p)) = platform_calls (trace p) @ [Haptic ''medium'']"
  by (simp_all add: play_prologue_def haptic_def platform_calls_append split: option.splits)

lemma play_failed_more [simp]:
  "getState (the_store (play_failed env e p)) =
     (getState (the_store p))\<lparr>playerState := ERROR, error := Some (ERROR_MSG_PLAYBACK env),
                               isLoading := False, isSearching := False\<rparr>"
  "element_id (primary (play_failed env e p)) = element_id (primary p)"
  "src (primary (play_failed env e p)) = src (primary p)"
  "secondary (play_failed env e p) = secondary p"
  "scheduledTick (play_failed env e p) = scheduledTick p"
  "play_answers (play_failed env e p) = play_answers p"
  "platform_calls (trace (play_failed env e p)) = platform_calls (trace p) @ [Haptic ''error'']"
  by (simp_all add: play_failed_def haptic_def console_error_def platform_calls_append)








lemma load_cong [simp]:
  "load_fails env t (player_dispatch env' a p) = load_fails env t p"
  "load_fails env t (haptic ty p) = load_fails env t p"
  "load_fails env t (stopProgressTimer p) = load_fails env t p"
  "load_blocked env t (haptic ty p) = load_blocked env t p"
  "load_blocked env t (stopProgressTimer p) = load_blocked env t p"
  "load_pending env t (haptic ty p) = load_pending env t p"
  "load_pending env t (stopProgressTimer p) = load_pending env t p"
  by (simp_all add: load_fails_def load_blocked_def load_pending_def haptic_def stopProgressTimer_def
        cong: list.case_cong option.case_cong load_answer.case_cong)


lemma now_failed_sleep [simp]:
  "now_failed env j t p (sleep ms (p2\<lparr>retryCount := n\<rparr>)) = now_failed env j t p p2"
  by (simp add: now_failed_def on_track_def sleep_def)




lemma resume_more [simp]:
  "progress (getState (the_store (resume env p))) = progress (getState (the_store p))"
  by (simp add: resume_def haptic_def startProgressTimer_def stopProgressTimer_def console_error_def
        split: list.splits play_answer.splits)

lemma seek_more [simp]:
  "playerState (getState (the_store (seek env x p))) = playerState (getState (the_store p))"
  "paused (primary (seek env x p)) = paused (primary p)"
  by (simp_all add: seek_def haptic_def split: option.splits)



lemma resume_src [simp]: "src (primary (resume env p)) = src (primary p)"
  by (simp add: resume_def haptic_def startProgressTimer_def stopProgressTimer_def console_error_def
        split: list.splits play_answer.splits)


lemma env_Date_now [simp]:
  "CROSSFADE_VISUAL (env\<lparr>Date_now := now\<rparr>) = CROSSFADE_VISUAL env"
  "random (env\<lparr>Date_now := now\<rparr>) = random env"
  "getTrackStreamUrl (env\<lparr>Date_now := now\<rparr>) = getTrackStreamUrl env"
  by simp_all








lemma load_outcomes:
  "load_starts env t p \<or> load_blocked env t p \<or> load_pending env t p \<or> load_fails env t p"
  by (simp add: load_starts_def load_blocked_def load_pending_def load_fails_def
        split: option.splits list.splits load_answer.splits play_answer.splits)






section \<open>The engine on the fixture\<close>

lemma fixture_player_simps [simp]:
  "getState (the_store (fixture_player s ct rc l pl)) = s"
  "primary (fixture_player s ct rc l pl) =
     \<lparr>element_id = ''aura-audio-primary'', src = ''a.mp3'', currentTime = ct,
      el_duration = Some 200, el_volume = 1, paused = False\<rparr>"
  "secondary (fixture_player s ct rc l pl) = createAudioElement ''secondary''"
  "retryCount (fixture_player s ct rc l pl) = rc"
  "load_answers (fixture_player s ct rc l pl) = l"
  "play_answers (fixture_player s ct rc l pl) = pl"
  "scheduledTick (fixture_player s ct rc l pl) = None"
  "sleeps (trace (fixture_player s ct rc l pl)) = []"
  by (simp_all add: fixture_player_def new_AudioPlayer_def select_def new_Store_def getState_def
        selectors_volume_def)

lemma fixture_queue_state_simps [simp]:
  "queue (fixture_queue_state q i r pr) = q"
  "queueIndex (fixture_queue_state q i r pr) = i"
  "repeatMode (fixture_queue_state q i r pr) = r"
  "progress (fixture_queue_state q i r pr) = pr"
  "activeQueue (fixture_queue_state q i r pr) = q"
  "currentTrack (fixture_queue_state q i r pr) = Some fixture_trackA"
  "playerState (fixture_queue_state q i r pr) = PLAYING"
  "isCrossfading (fixture_queue_state q i r pr) = False"
  by (simp_all add: fixture_queue_state_def activeQueue_def fixture_state_def createInitialState_def)

lemma fixture_env_simps [simp]:
  "MAX_RETRIES fixture_env = 3"
  "RETRY_DELAY_MS fixture_env = 1000"
  "CROSSFADE_VISUAL fixture_env = 3000"
  "getTrackStreamUrl fixture_env t = Some (audio t)"
  "Date_now fixture_env = 0"
  by (simp_all add: fixture_env_def)

lemma fixture_track_simps [simp]:
  "track_id fixture_trackA = ''a''" "track_id fixture_trackB = ''b''" "track_id fixture_trackC = ''c''"
  "audio fixture_trackA = ''a.mp3''" "audio fixture_trackB = ''b.mp3''" "audio fixture_trackC = ''c.mp3''"
  by (simp_all add: fixture_trackA_def fixture_trackB_def fixture_trackC_def)

theorem addToQueueNext_inserts_after_current_witness:
  "- 1 \<le> queueIndex (getState (the_store
       (fixture_player (fixture_queue_state [fixture_trackA, fixture_trackB] 0 REPEAT_NONE 30) 30 0 [] []))) \<and>
   queue (getState (the_store (addToQueueNext fixture_env fixture_trackC
       (fixture_player (fixture_queue_state [fixture_trackA, fixture_trackB] 0 REPEAT_NONE 30) 30 0 [] [])))) =
     [fixture_trackA, fixture_trackC, fixture_trackB] \<and>
   queueIndex (getState (the_store (addToQueueNext fixture_env fixture_trackC
       (fixture_player (fixture_queue_state [fixture_trackA, fixture_trackB] 0 REPEAT_NONE 30) 30 0 [] [])))) = 0 \<and>
   currentTrack (getState (the_store (addToQueueNext fixture_env fixture_trackC
       (fixture_player (fixture_queue_state [fixture_trackA, fixture_trackB] 0 REPEAT_NONE 30) 30 0 [] [])))) =
     Some fixture_trackA"
  using addToQueueNext_inserts_after_current[where
      p = "fixture_player (fixture_queue_state [fixture_trackA, fixture_trackB] 0 REPEAT_NONE 30) 30 0 [] []"
      and env = fixture_env and t = fixture_trackC]
  by simp

lemma fixture_state_simps [simp]:
  "activeQueue fixture_state = []"
  "queueIndex fixture_state = - 1"
  by (simp_all add: fixture_state_def createInitialState_def activeQueue_def)

lemma fixture_player_more [simp]:
  "trace (fixture_player s ct rc l pl) = []"
  "progressTimer (fixture_player s ct rc l pl)"
  "boundHandlers (fixture_player s ct rc l pl)"
  by (simp_all add: fixture_player_def new_AudioPlayer_def)

lemma fixture_stream_player_simps [simp]:
  "getState (the_store (fixture_stream_player s ct pl)) = s"
  "primary (fixture_stream_player s ct pl) =
     \<lparr>element_id = ''aura-audio-primary'', src = ''a.mp3'', currentTime = ct,
      el_duration = None, el_volume = 1, paused = False\<rparr>"
  "play_answers (fixture_stream_player s ct pl) = pl"
  "load_answers (fixture_stream_player s ct pl) = []"
  by (simp_all add: fixture_stream_player_def)







lemma fixture_volume [simp]: "volume (fixture_queue_state q i r pr) = 1"
  by (simp add: fixture_queue_state_def fixture_state_def createInitialState_def)




lemma play_autoplay_blocked:
  assumes u: "getTrackStreamUrl env t = Some url"
      and l: "load_answers p = CanPlay w d # rest" and s: "play_answers p = NotAllowedError # rest'"
  shows "playerState (getState (the_store (play env (Some t) q i p))) = PAUSED \<and>
         retryCount (play env (Some t) q i p) = retryCount p"
proof -
  let ?p0 = "play_prologue env t q i p"
  have l0: "load_answers ?p0 = CanPlay w d # rest" and s0: "play_answers ?p0 = NotAllowedError # rest'"
    using l s by simp_all
  have "\<exists>p'. loadAudio env url ?p0 = (Fulfilled, p') \<and>
          playerState (getState (the_store p')) = PAUSED \<and> retryCount p' = retryCount ?p0"
    using l0 s0
    by (cases w)
       (simp_all add: loadAudio_def Let_def attachPrimaryListeners_def detachPrimaryListeners_def)
  then obtain p' where la: "loadAudio env url ?p0 = (Fulfilled, p')"
    and f: "playerState (getState (the_store p')) = PAUSED" "retryCount p' = retryCount ?p0" by blast
  have "play env (Some t) q i p = logPlayEvent t p'"
    by (simp add: play.simps try_load_def u la)
  then show ?thesis using f by (simp add: logPlayEvent_def)
qed

theorem play_retry_policy_witness:
  "(\<exists>p1. play fixture_env (Some fixture_trackB) None 0
            (fixture_player (fixture_queue_state fixture_abc 0 REPEAT_NONE 30) 30 0 [LoadError False] []) =
          next_track fixture_env p1 \<and>
          retryCount p1 = 1 \<and>
          playerState (getState (the_store p1)) = ERROR \<and>
          error (getState (the_store p1)) = Some ''Playback failed'' \<and>
          sleeps (trace p1) = [1000]) \<and>
   playerState (getState (the_store (play fixture_env (Some fixture_trackB) None 0
       (fixture_player (fixture_queue_state fixture_abc 0 REPEAT_NONE 30) 30 3 [LoadError False] [])))) = ERROR \<and>
   retryCount (play fixture_env (Some fixture_trackB) None 0
       (fixture_player (fixture_queue_state fixture_abc 0 REPEAT_NONE 30) 30 3 [LoadError False] [])) = 3 \<and>
   sleeps (trace (play fixture_env (Some fixture_trackB) None 0
       (fixture_player (fixture_queue_state fixture_abc 0 REPEAT_NONE 30) 30 3 [LoadError False] []))) = [] \<and>
   retryCount (play fixture_env (Some fixture_trackB) None 0
       (fixture_player (fixture_queue_state fixture_abc 0 REPEAT_NONE 30) 30 2 [CanPlay False 180] [Started])) = 0"
proof -
  have m: "ERROR_MSG_PLAYBACK fixture_env = ''Playback failed''" by (simp add: fixture_env_def)
  have below: "\<exists>p1. play fixture_env (Some fixture_trackB) None 0
            (fixture_player (fixture_queue_state fixture_abc 0 REPEAT_NONE 30) 30 0 [LoadError False] []) =
          next_track fixture_env p1 \<and>
          retryCount p1 = 1 \<and>
          playerState (getState (the_store p1)) = ERROR \<and>
          error (getState (the_store p1)) = Some ''Playback failed'' \<and>
          sleeps (trace p1) = [1000]"
    using play_retry_policy[of fixture_env fixture_trackB None 0
        "fixture_player (fixture_queue_state fixture_abc 0 REPEAT_NONE 30) 30 0 [LoadError False] []"]
    by (simp add: Let_def load_fails_def m)
  have ceiling: "playerState (getState (the_store (play fixture_env (Some fixture_trackB) None 0
       (fixture_player (fixture_queue_state fixture_abc 0 REPEAT_NONE 30) 30 3 [LoadError False] [])))) = ERROR \<and>
   retryCount (play fixture_env (Some fixture_trackB) None 0
       (fixture_player (fixture_queue_state fixture_abc 0 REPEAT_NONE 30) 30 3 [LoadError False] [])) = 3 \<and>
   sleeps (trace (play fixture_env (Some fixture_trackB) None 0
       (fixture_player (fixture_queue_state fixture_abc 0 REPEAT_NONE 30) 30 3 [LoadError False] []))) = []"
    using play_retry_policy[of fixture_env fixture_trackB None 0
        "fixture_player (fixture_queue_state fixture_abc 0 REPEAT_NONE 30) 30 3 [LoadError False] []"]
    by (simp add: Let_def load_fails_def)
  have ok: "retryCount (play fixture_env (Some fixture_trackB) None 0
       (fixture_player (fixture_queue_state fixture_abc 0 REPEAT_NONE 30) 30 2 [CanPlay False 180] [Started])) = 0"
    using play_retry_policy[of fixture_env fixture_trackB None 0
        "fixture_player (fixture_queue_state fixture_abc 0 REPEAT_NONE 30) 30 2 [CanPlay False 180] [Started]"]
    by (simp add: Let_def load_starts_def)
  show ?thesis using below ceiling ok by blast
qed

text \<open>
  C8 as stated fails at the ceiling, where a load failure does not increment the
  counter; and a load that succeeds while the platform blocks autoplay (state \<open>PAUSED\<close>)
  leaves the counter as it is.
\<close>

theorem play_retry_policy_counterexample:
  "load_fails fixture_env fixture_trackB
       (fixture_player (fixture_queue_state fixture_abc 0 REPEAT_NONE 30) 30 3 [LoadError False] []) \<and>
   retryCount (fixture_player (fixture_queue_state fixture_abc 0 REPEAT_NONE 30) 30 3 [LoadError False] []) = 3 \<and>
   retryCount (play fixture_env (Some fixture_trackB) None 0
       (fixture_player (fixture_queue_state fixture_abc 0 REPEAT_NONE 30) 30 3 [LoadError False] [])) = 3 \<and>
   playerState (getState (the_store (play fixture_env (Some fixture_trackB) None 0
       (fixture_player (fixture_queue_state fixture_abc 0 REPEAT_NONE 30) 30 2
          [CanPlay False 180] [NotAllowedError])))) = PAUSED \<and>
   retryCount (play fixture_env (Some fixture_trackB) None 0
       (fixture_player (fixture_queue_state fixture_abc 0 REPEAT_NONE 30) 30 2
          [CanPlay False 180] [NotAllowedError])) = 2"
proof -
  let ?p = "fixture_player (fixture_queue_state fixture_abc 0 REPEAT_NONE 30) 30 3 [LoadError False] []"
  have f: "load_fails fixture_env fixture_trackB ?p" by (simp add: load_fails_def)
  from try_load_fails[of fixture_env fixture_trackB "play_prologue fixture_env fixture_trackB None 0 ?p"] f
  obtain e p2 where t: "try_load fixture_env fixture_trackB (play_prologue fixture_env fixture_trackB None 0 ?p) = (Rejected e, p2)"
    and k: "retryCount p2 = 3" by auto
  have "play fixture_env (Some fixture_trackB) None 0 ?p = play_failed fixture_env e p2"
    using k by (simp add: play.simps t)
  then have c: "retryCount (play fixture_env (Some fixture_trackB) None 0 ?p) = 3" using k by simp
  show ?thesis
    using f c play_autoplay_blocked[of fixture_env fixture_trackB "''b.mp3''"
        "fixture_player (fixture_queue_state fixture_abc 0 REPEAT_NONE 30) 30 2 [CanPlay False 180] [NotAllowedError]"
        False 180 "[]" "[]" None 0]
    by simp
qed

lemma tick_in_progress:
  assumes "scheduledTick p = Some job" and "0 < CROSSFADE_VISUAL env"
      and "Date_now env - startTime job < CROSSFADE_VISUAL env"
  shows "scheduledTick (tick env p) = Some job \<and>
         element_id (primary (tick env p)) = element_id (primary p) \<and>
         src (primary (tick env p)) = src (primary p) \<and>
         getState (the_store (tick env p)) = getState (the_store p)"
  using assms by (simp add: tick_def Let_def requestAnimationFrame_def min_def divide_less_eq)

lemma tick_completes:
  assumes "scheduledTick p = Some job" and "0 < CROSSFADE_VISUAL env"
      and "CROSSFADE_VISUAL env \<le> Date_now env - startTime job"
  shows "scheduledTick (tick env p) = None \<and>
         element_id (primary (tick env p)) = element_id (secondary p) \<and>
         element_id (secondary (tick env p)) = element_id (primary p) \<and>
         src (secondary (tick env p)) = [] \<and>
         \<not> isCrossfading (getState (the_store (tick env p))) \<and>
         map_option track_id (currentTrack (getState (the_store (tick env p)))) = Some (track_id (nextTrack job))"
proof -
  have "\<not> min ((Date_now env - startTime job) / CROSSFADE_VISUAL env) 1 < 1"
    using assms by (simp add: min_def le_divide_eq)
  then show ?thesis
    using assms(1)
    by (simp add: tick_def Let_def logPlayEvent_def startProgressTimer_def stopProgressTimer_def
          attachPrimaryListeners_def detachPrimaryListeners_def)
qed

text \<open>
  C4.  The claim: during a crossfade started by the natural end of a track, the store's
  current track changes to B only after the ramp has completed and the handles are
  swapped.  The code at queue [A, B, C], index 0, repeat-none: when \<^verbatim>\<open>#onEnded\<close> returns,
  before any frame of the ramp has run, the current track is already B, while the store
  says that the crossfade is on, the first frame is still scheduled, the active element is
  still the one that holds A and the standby element is silent.  After a frame in the
  middle of the ramp the handles are still not swapped; they are after the last frame.
\<close>

theorem crossfade_track_change_before_swap:
  "map_option track_id (currentTrack (getState (the_store (onEnded fixture_env
       (fixture_player (fixture_queue_state fixture_abc 0 REPEAT_NONE 200) 200 0 [] [Started]))))) = Some ''b'' \<and>
   isCrossfading (getState (the_store (onEnded fixture_env
       (fixture_player (fixture_queue_state fixture_abc 0 REPEAT_NONE 200) 200 0 [] [Started])))) \<and>
   scheduledTick (onEnded fixture_env
       (fixture_player (fixture_queue_state fixture_abc 0 REPEAT_NONE 200) 200 0 [] [Started])) \<noteq> None \<and>
   element_id (primary (onEnded fixture_env
       (fixture_player (fixture_queue_state fixture_abc 0 REPEAT_NONE 200) 200 0 [] [Started]))) = ''aura-audio-primary'' \<and>
   src (primary (onEnded fixture_env
       (fixture_player (fixture_queue_state fixture_abc 0 REPEAT_NONE 200) 200 0 [] [Started]))) = ''a.mp3'' \<and>
   el_volume (secondary (onEnded fixture_env
       (fixture_player (fixture_queue_state fixture_abc 0 REPEAT_NONE 200) 200 0 [] [Started]))) = 0 \<and>
   element_id (primary (tick (fixture_env\<lparr>Date_now := 1500\<rparr>) (onEnded fixture_env
       (fixture_player (fixture_queue_state fixture_abc 0 REPEAT_NONE 200) 200 0 [] [Started])))) = ''aura-audio-primary'' \<and>
   map_option track_id (currentTrack (getState (the_store (tick (fixture_env\<lparr>Date_now := 1500\<rparr>) (onEnded fixture_env
       (fixture_player (fixture_queue_state fixture_abc 0 REPEAT_NONE 200) 200 0 [] [Started])))))) = Some ''b'' \<and>
   element_id (primary (tick (fixture_env\<lparr>Date_now := 3000\<rparr>) (onEnded fixture_env
       (fixture_player (fixture_queue_state fixture_abc 0 REPEAT_NONE 200) 200 0 [] [Started])))) = ''aura-audio-secondary''"
proof -
  let ?p = "fixture_player (fixture_queue_state fixture_abc 0 REPEAT_NONE 200) 200 0 [] [Started]"
  let ?p1 = "onEnded fixture_env ?p"
  from onEnded_crossfade[of ?p fixture_env "''b.mp3''" Started "[]"]
  obtain job where
    a: "map_option track_id (currentTrack (getState (the_store ?p1))) = Some ''b''"
       "isCrossfading (getState (the_store ?p1))"
       "element_id (primary ?p1) = ''aura-audio-primary''"
       "src (primary ?p1) = ''a.mp3''"
       "el_volume (secondary ?p1) = 0"
       "element_id (secondary ?p1) = ''aura-audio-secondary''"
    and j: "scheduledTick ?p1 = Some job" "startTime job = 0"
    by (auto simp: fixture_abc_def createAudioElement_def)
  have mid: "element_id (primary (tick (fixture_env\<lparr>Date_now := 1500\<rparr>) ?p1)) = ''aura-audio-primary'' \<and>
      map_option track_id (currentTrack (getState (the_store (tick (fixture_env\<lparr>Date_now := 1500\<rparr>) ?p1)))) = Some ''b''"
    using tick_in_progress[OF j(1), of "fixture_env\<lparr>Date_now := 1500\<rparr>"] a j(2)
    by (simp add: fixture_env_def)
  have fin: "element_id (primary (tick (fixture_env\<lparr>Date_now := 3000\<rparr>) ?p1)) = ''aura-audio-secondary''"
    using tick_completes[OF j(1), of "fixture_env\<lparr>Date_now := 3000\<rparr>"] a j(2)
    by (simp add: fixture_env_def)
  show ?thesis using a j(1) mid fin by simp
qed

end
